theory Spec2Isabelle
  imports Complex_Main "HOL-Library.AList"
begin

section \<open>Ice trail effect (effects/IceTrailEffect.ts)\<close>

text \<open>
  JavaScript numbers and the entries of the two \<open>Float32Array\<close>s are modelled as
  \<open>real\<close>: rounding is not part of the model. \<open>Math.random()\<close> is an input: every
  call of \<open>update\<close> receives the draws it would make.
\<close>

definition maxTrailPoints :: nat where
  "maxTrailPoints = 64"

definition trailInterval :: real where
  "trailInterval = 0.025"

text \<open>\<open>THREE.Intersection\<close>: only the optional \<open>uv\<close> field is read.\<close>

record Intersection =
  uv :: "(real \<times> real) option"

text \<open>
  The draws of \<open>Math.random()\<close> during one call of \<open>update\<close>: \<open>meltDraw i\<close> is
  the draw made for slot \<open>i\<close> in the fade loop (made only for a live slot), \<open>fadeDraw\<close>
  and \<open>ageDraw\<close> are the two draws of an insertion, in source order.
\<close>

record Rand =
  meltDraw :: "nat \<Rightarrow> real"
  fadeDraw :: real
  ageDraw :: real

text \<open>
  The fields of the class. \<open>trailData\<close> has 4 entries per slot (x, y, age, intensity),
  \<open>trailMeta\<close> 2 per slot (fadeSpeed, maxAge). The data texture is built on
  \<open>trailData\<close> itself, so its texels are the array's entries; \<open>textureVersion\<close>
  counts the assignments \<open>trailTexture.needsUpdate = true\<close>.
\<close>

record IceTrailEffect =
  trailData :: "real list"
  trailMeta :: "real list"
  trailIndex :: nat
  trailCount :: nat
  lastTrailTime :: real
  textureVersion :: nat
  uTrailCount :: nat
  uTime :: real

definition IceTrail_new :: IceTrailEffect where
  "IceTrail_new =
     \<lparr> trailData = replicate (maxTrailPoints * 4) 0,
       trailMeta = replicate (maxTrailPoints * 2) 0,
       trailIndex = 0,
       trailCount = 0,
       lastTrailTime = 0,
       textureVersion = 1,
       uTrailCount = 0,
       uTime = 0 \<rparr>"

text \<open>
  \<open>Math.pow\<close> on the arguments the fade loop passes: a base that is not negative.
  \<open>powr\<close> agrees with it there (\<open>0 powr y = 0\<close>).
\<close>

definition Math_pow :: "real \<Rightarrow> real \<Rightarrow> real" where
  "Math_pow x y = x powr y"

text \<open>The fade exponent and the intensity computed from an age (lines 94 to 101).\<close>

definition fadeExponent :: "real \<Rightarrow> real" where
  "fadeExponent age = 1.5 + sin (age * 3.0) * 0.3"

definition fadeCurve :: "real \<Rightarrow> real \<Rightarrow> real" where
  "fadeCurve age maxAge = Math_pow (age / maxAge) (fadeExponent age)"

definition rawIntensity :: "real \<Rightarrow> real \<Rightarrow> real" where
  "rawIntensity age maxAge = 1.0 - fadeCurve age maxAge"

text \<open>The body of the fade loop for slot \<open>i\<close> (lines 82 to 107).\<close>

definition fadePoint :: "real \<Rightarrow> (nat \<Rightarrow> real) \<Rightarrow> IceTrailEffect \<Rightarrow> nat \<Rightarrow> IceTrailEffect" where
  "fadePoint deltaTime melt st i =
     (let idx = i * 4; metaIdx = i * 2 in
      if trailData st ! (idx + 3) > 0 then
        let d1 = (trailData st)[idx + 2 := trailData st ! (idx + 2) + deltaTime];
            maxAge = trailMeta st ! (metaIdx + 1);
            age = d1 ! (idx + 2);
            d2 = d1[idx + 3 := max 0 (rawIntensity age maxAge)];
            d3 = (if melt i < 0.002 then d2[idx + 3 := d2 ! (idx + 3) * 0.7] else d2)
        in st\<lparr>trailData := d3\<rparr>
      else st)"

definition fadeAll :: "real \<Rightarrow> (nat \<Rightarrow> real) \<Rightarrow> IceTrailEffect \<Rightarrow> IceTrailEffect" where
  "fadeAll deltaTime melt st = foldl (fadePoint deltaTime melt) st [0..<maxTrailPoints]"

text \<open>The guard of the insertion (lines 111 and 112).\<close>

definition shouldInsert :: "real \<Rightarrow> Intersection list \<Rightarrow> bool \<Rightarrow> IceTrailEffect \<Rightarrow> bool" where
  "shouldInsert elapsedTime intersects isScrolling st =
     (\<not> isScrolling \<and> length intersects > 0 \<and> uv (hd intersects) \<noteq> None \<and>
      elapsedTime - lastTrailTime st > trailInterval)"

text \<open>The insertion of a new point at the write cursor (lines 114 to 131).\<close>

definition insertPoint :: "real \<Rightarrow> (real \<times> real) \<Rightarrow> Rand \<Rightarrow> IceTrailEffect \<Rightarrow> IceTrailEffect" where
  "insertPoint elapsedTime hitUv rnd st =
     (let idx = trailIndex st * 4; metaIdx = trailIndex st * 2 in
      st\<lparr> trailData := (trailData st)[idx := fst hitUv, idx + 1 := snd hitUv,
                                       idx + 2 := 0, idx + 3 := 1.0],
          trailMeta := (trailMeta st)[metaIdx := 0.1 + fadeDraw rnd * 0.2,
                                       metaIdx + 1 := 2.0 + ageDraw rnd * 3.0],
          trailIndex := (trailIndex st + 1) mod maxTrailPoints,
          trailCount := min (trailCount st + 1) maxTrailPoints,
          lastTrailTime := elapsedTime \<rparr>)"

definition IceTrail_update ::
  "real \<Rightarrow> real \<Rightarrow> Intersection list \<Rightarrow> bool \<Rightarrow> Rand \<Rightarrow> IceTrailEffect \<Rightarrow> IceTrailEffect" where
  "IceTrail_update deltaTime elapsedTime intersects isScrolling rnd st =
     (let s1 = fadeAll deltaTime (meltDraw rnd) st;
          s2 = (if shouldInsert elapsedTime intersects isScrolling s1
                then insertPoint elapsedTime (the (uv (hd intersects))) rnd s1
                else s1);
          shouldUpdateTexture = (\<not> isScrolling \<or> \<lfloor>elapsedTime * 60\<rfloor> mod 2 = 0);
          s3 = (if shouldUpdateTexture then s2\<lparr>textureVersion := textureVersion s2 + 1\<rparr> else s2)
      in s3\<lparr>uTrailCount := trailCount s3, uTime := elapsedTime\<rparr>)"

text \<open>One call of \<open>update\<close> with its arguments and draws, and a sequence of calls.\<close>

record Frame =
  deltaTime :: real
  elapsedTime :: real
  intersects :: "Intersection list"
  isScrolling :: bool
  rand :: Rand

definition frameStep :: "IceTrailEffect \<Rightarrow> Frame \<Rightarrow> IceTrailEffect" where
  "frameStep st f =
     IceTrail_update (deltaTime f) (elapsedTime f) (intersects f) (isScrolling f) (rand f) st"

definition runFrames :: "Frame list \<Rightarrow> IceTrailEffect \<Rightarrow> IceTrailEffect" where
  "runFrames fs st = foldl frameStep st fs"

text \<open>Readers of one slot.\<close>

definition slotUv :: "IceTrailEffect \<Rightarrow> nat \<Rightarrow> real \<times> real" where
  "slotUv st i = (trailData st ! (i * 4), trailData st ! (i * 4 + 1))"

definition slotAge :: "IceTrailEffect \<Rightarrow> nat \<Rightarrow> real" where
  "slotAge st i = trailData st ! (i * 4 + 2)"

definition slotIntensity :: "IceTrailEffect \<Rightarrow> nat \<Rightarrow> real" where
  "slotIntensity st i = trailData st ! (i * 4 + 3)"

definition slotMaxAge :: "IceTrailEffect \<Rightarrow> nat \<Rightarrow> real" where
  "slotMaxAge st i = trailMeta st ! (i * 2 + 1)"

text \<open>The two arrays keep the sizes the constructor gave them.\<close>

definition sized :: "IceTrailEffect \<Rightarrow> bool" where
  "sized st = (length (trailData st) = maxTrailPoints * 4 \<and>
               length (trailMeta st) = maxTrailPoints * 2 \<and>
               trailIndex st < maxTrailPoints)"

text \<open>
  What the caller and \<open>Math.random()\<close> guarantee for one call: the delta time is not
  negative and the draw for the maximum age is not negative. A slot is in order when,
  if it is live, its maximum age is at least 2 and its age is not negative.
\<close>

definition frameOk :: "Frame \<Rightarrow> bool" where
  "frameOk f = (0 \<le> deltaTime f \<and> 0 \<le> ageDraw (rand f))"

definition liveSlotsOk :: "IceTrailEffect \<Rightarrow> bool" where
  "liveSlotsOk st =
     (\<forall>i<maxTrailPoints. slotIntensity st i > 0 \<longrightarrow> 2 \<le> slotMaxAge st i \<and> 0 \<le> slotAge st i)"



section \<open>The trail loop of the injected fragment shader (IceTrailEffect.ts, lines 216 to 222)\<close>

text \<open>
  The data texture is 64 texels wide and 1 high, RGBA, over \<open>trailData\<close>: texel \<open>j\<close> is
  the four entries of slot \<open>j\<close>. A \<open>DataTexture\<close> is sampled with nearest filtering,
  so \<open>texture2D\<close> at horizontal coordinate \<open>c\<close> reads texel \<open>floor (c * 64)\<close>,
  clamped to the texture.
\<close>

definition MAX_TRAIL_POINTS :: nat where
  "MAX_TRAIL_POINTS = 64"

type_synonym vec4 = "real \<times> real \<times> real \<times> real"

definition texel :: "real list \<Rightarrow> nat \<Rightarrow> vec4" where
  "texel d j = (d ! (j * 4), d ! (j * 4 + 1), d ! (j * 4 + 2), d ! (j * 4 + 3))"

definition texture2D_trail :: "real list \<Rightarrow> real \<Rightarrow> vec4" where
  "texture2D_trail d c = texel d (nat (min 63 (max 0 \<lfloor>c * 64\<rfloor>)))"

text \<open>
  The loop \<open>for (int i = 0; i < MAX_TRAIL_POINTS; i++) { if (i >= uTrailCount) break; ... }\<close>:
  the list of the trail points it samples, in the order it samples them.
\<close>

function trailLoop :: "real list \<Rightarrow> nat \<Rightarrow> nat \<Rightarrow> vec4 list" where
  "trailLoop d count i =
     (if i < MAX_TRAIL_POINTS then
        (if i \<ge> count then []
         else (let texCoord = (real i + 0.5) / real MAX_TRAIL_POINTS
               in texture2D_trail d texCoord # trailLoop d count (i + 1)))
      else [])"
  by pat_completeness auto
termination
  by (relation "measure (\<lambda>(d, count, i). MAX_TRAIL_POINTS - i)") auto

declare trailLoop.simps [simp del]

text \<open>What the shader visits for the state a call of \<open>update\<close> leaves behind.\<close>

definition shaderVisits :: "IceTrailEffect \<Rightarrow> vec4 list" where
  "shaderVisits st = trailLoop (trailData st) (uTrailCount st) 0"

definition vec4Uv :: "vec4 \<Rightarrow> real \<times> real" where
  "vec4Uv p = (fst p, fst (snd p))"

text \<open>
  The uv coordinates of the points a sequence of calls inserts, oldest first
  (a history of the run, not a field of the class).
\<close>

fun insertedUvs :: "Frame list \<Rightarrow> IceTrailEffect \<Rightarrow> (real \<times> real) list" where
  "insertedUvs [] st = []"
| "insertedUvs (f # fs) st =
     (if shouldInsert (elapsedTime f) (intersects f) (isScrolling f) st
      then [the (uv (hd (intersects f)))] else [])
     @ insertedUvs fs (frameStep st f)"

section \<open>Shared ice textures (utils/TextureLoaders.ts)\<close>

text \<open>
  A texture is an object: \<open>texId\<close> is its identity, \<open>texPath\<close> the path given to
  \<open>TextureLoader.load\<close>. The bundle is an object too, \<open>bundleId\<close> its identity.
\<close>

record Texture =
  texId :: nat
  texPath :: string

record IceTextures =
  bundleId :: nat
  color :: Texture
  normal :: Texture
  density :: Texture
  noise :: Texture
  radial :: Texture

text \<open>
  The module variables \<open>sharedIceTextures\<close>, \<open>sharedIceTexturesLoading\<close> and
  \<open>iceTexturesCallbacks\<close>. A callback is a number that names it; calling it appends to
  \<open>invoked\<close> the callback and the bundle it received. \<open>loaderCalls\<close> lists the paths
  given to \<open>loader.load\<close>, \<open>nextObject\<close> is the next unused object identity.
\<close>

record TextureLoaders =
  sharedIceTextures :: "IceTextures option"
  sharedIceTexturesLoading :: bool
  iceTexturesCallbacks :: "nat list"
  invoked :: "(nat \<times> IceTextures) list"
  loaderCalls :: "string list"
  nextObject :: nat

definition TextureLoaders_init :: TextureLoaders where
  "TextureLoaders_init =
     \<lparr> sharedIceTextures = None, sharedIceTexturesLoading = False, iceTexturesCallbacks = [],
       invoked = [], loaderCalls = [], nextObject = 0 \<rparr>"

definition iceTexturePath :: string where
  "iceTexturePath = ''/assets/textures_dracarys/''"

text \<open>\<open>loader.load(path)\<close>: a new texture object, returned at once.\<close>

definition loaderLoad :: "string \<Rightarrow> TextureLoaders \<Rightarrow> Texture \<times> TextureLoaders" where
  "loaderLoad p st =
     (\<lparr> texId = nextObject st, texPath = p \<rparr>,
      st\<lparr> loaderCalls := loaderCalls st @ [p], nextObject := nextObject st + 1 \<rparr>)"

definition getSharedIceTextures :: "TextureLoaders \<Rightarrow> IceTextures option" where
  "getSharedIceTextures st = sharedIceTextures st"

definition pushCallback :: "nat option \<Rightarrow> TextureLoaders \<Rightarrow> TextureLoaders" where
  "pushCallback onLoaded st =
     (case onLoaded of
        None \<Rightarrow> st
      | Some cb \<Rightarrow> st\<lparr> iceTexturesCallbacks := iceTexturesCallbacks st @ [cb] \<rparr>)"

definition loadSharedIceTextures ::
  "nat option \<Rightarrow> TextureLoaders \<Rightarrow> IceTextures option \<times> TextureLoaders" where
  "loadSharedIceTextures onLoaded st =
     (case sharedIceTextures st of
        Some t \<Rightarrow>
          (Some t,
           (case onLoaded of
              None \<Rightarrow> st
            | Some cb \<Rightarrow> st\<lparr> invoked := invoked st @ [(cb, t)] \<rparr>))
      | None \<Rightarrow>
          if sharedIceTexturesLoading st then (None, pushCallback onLoaded st)
          else
            (let st1 = st\<lparr> sharedIceTexturesLoading := True \<rparr>;
                 st2 = pushCallback onLoaded st1;
                 (iceColorMap, st3) = loaderLoad (iceTexturePath @ ''ice-diffuse-3.jpg'') st2;
                 (iceNormalMap, st4) = loaderLoad (iceTexturePath @ ''ice-normal-4.png'') st3;
                 (iceDensityMap, st5) = loaderLoad (iceTexturePath @ ''ice-density-4.jpg'') st4;
                 (noiseTexture, st6) = loaderLoad (iceTexturePath @ ''noise-fbm.png'') st5;
                 (radialTexture, st7) = loaderLoad (iceTexturePath @ ''radial.jpg'') st6;
                 bundle = \<lparr> bundleId = nextObject st7, color = iceColorMap, normal = iceNormalMap,
                            density = iceDensityMap, noise = noiseTexture, radial = radialTexture \<rparr>;
                 st8 = st7\<lparr> sharedIceTextures := Some bundle, nextObject := nextObject st7 + 1 \<rparr>;
                 st9 = st8\<lparr> invoked := invoked st8 @ map (\<lambda>cb. (cb, bundle)) (iceTexturesCallbacks st8) \<rparr>;
                 st10 = st9\<lparr> iceTexturesCallbacks := [] \<rparr>
             in (Some bundle, st10)))"

text \<open>A sequence of calls, each with its optional callback; the results in call order.\<close>

fun loadSharedIceTexturesAll ::
  "nat option list \<Rightarrow> TextureLoaders \<Rightarrow> IceTextures option list \<times> TextureLoaders" where
  "loadSharedIceTexturesAll [] st = ([], st)"
| "loadSharedIceTexturesAll (c # cs) st =
     (let (r, st1) = loadSharedIceTextures c st;
          (rs, st2) = loadSharedIceTexturesAll cs st1
      in (r # rs, st2))"

section \<open>Scene orchestrator (SharedThreeScene.tsx, utils/AnimationLoop.ts, utils/Performance.ts)\<close>

text \<open>\<open>AnimationLoop\<close>: the frame counter, the elapsed time and the two options.\<close>

record AnimationLoop =
  frameCount :: nat
  loopElapsed :: real
  enableFrameSkipping :: bool
  frameSkipInterval :: nat

record Timing =
  tDelta :: real
  tElapsed :: real
  tFrameCount :: nat
  shouldSkipFrame :: bool

text \<open>\<open>new AnimationLoop()\<close> with no options: no frame skipping, interval 2.\<close>

definition AnimationLoop_new :: AnimationLoop where
  "AnimationLoop_new =
     \<lparr> frameCount = 0, loopElapsed = 0, enableFrameSkipping = False, frameSkipInterval = 2 \<rparr>"

text \<open>
  \<open>update()\<close>; \<open>delta\<close> is what \<open>clock.getDelta()\<close> returns. A remainder by 0 is
  \<open>NaN\<close> in JavaScript and never equal to 0.
\<close>

definition AnimationLoop_update :: "real \<Rightarrow> AnimationLoop \<Rightarrow> Timing \<times> AnimationLoop" where
  "AnimationLoop_update delta al =
     (let e = loopElapsed al + delta;
          fc = frameCount al + 1;
          skip = (enableFrameSkipping al \<and> frameSkipInterval al \<noteq> 0 \<and>
                  fc mod frameSkipInterval al = 0)
      in (\<lparr> tDelta = delta, tElapsed = e, tFrameCount = fc, shouldSkipFrame = skip \<rparr>,
          al\<lparr> frameCount := fc, loopElapsed := e \<rparr>))"

datatype SceneType = Hero | Footer

text \<open>What a mesh material of the loaded model carries after the load callback.\<close>

record Material =
  metalMaps :: bool
  iceShaderInjected :: bool

text \<open>\<open>GodrayPostProcessing\<close>: the size of its offscreen render target.\<close>

record Godray =
  targetWidth :: real
  targetHeight :: real

text \<open>The objects the effect body creates with \<open>new\<close>, and the render calls, as logs.\<close>

datatype Component =
  CTextureCache | CSmokeEffect | CIceTrailEffect | CSceneLighting | CGodrayPostProcessing |
  CModelInteraction | CAnimationLoop

datatype RenderCall = DirectRender | GodrayScenePass | GodrayCompositePass

record SharedThreeScene =
  sceneType :: SceneType
  isMobile :: bool
  contextLost :: bool
  isPageVisible :: bool
  isInViewport :: bool
  iceTrailEffect :: "IceTrailEffect option"
  godrayPostProcessing :: "Godray option"
  smokeCount :: nat
  smokeTime :: real
  animationLoop :: AnimationLoop
  sceneModel :: "Material list option"
  renders :: "RenderCall list"
  allocated :: "Component list"

text \<open>
  The effect body up to the registration of the frame callback (lines 343 to 417).
  \<open>mobile\<close> is what \<open>createSceneSetup\<close> returns as \<open>isMobile\<close>; \<open>w\<close>, \<open>h\<close> and \<open>pr\<close>
  are the container sizes and the pixel ratio.
\<close>

definition SharedThreeScene_mount :: "SceneType \<Rightarrow> bool \<Rightarrow> real \<Rightarrow> real \<Rightarrow> real \<Rightarrow> SharedThreeScene" where
  "SharedThreeScene_mount ty mobile w h pr =
     \<lparr> sceneType = ty,
       isMobile = mobile,
       contextLost = False,
       isPageVisible = True,
       isInViewport = False,
       iceTrailEffect = (if \<not> mobile then Some IceTrail_new else None),
       godrayPostProcessing =
         (if \<not> mobile then Some \<lparr> targetWidth = w * pr, targetHeight = h * pr \<rparr> else None),
       smokeCount = (if mobile then 100 else 200),
       smokeTime = 0,
       animationLoop = AnimationLoop_new,
       sceneModel = None,
       renders = [],
       allocated =
         [CTextureCache, CSmokeEffect] @ (if \<not> mobile then [CIceTrailEffect] else []) @
         [CSceneLighting] @ (if \<not> mobile then [CGodrayPostProcessing] else []) @
         [CModelInteraction, CAnimationLoop] \<rparr>"

text \<open>The callback of \<open>gltfLoader.load\<close> (lines 438 to 482), on the materials of the meshes.\<close>

definition onModelLoaded :: "Material list \<Rightarrow> SharedThreeScene \<Rightarrow> SharedThreeScene" where
  "onModelLoaded mats sc =
     sc\<lparr> sceneModel := Some (map (\<lambda>m.
            (let m1 = m\<lparr> metalMaps := True \<rparr>
             in if \<not> isMobile sc \<and> iceTrailEffect sc \<noteq> None
                then m1\<lparr> iceShaderInjected := True \<rparr> else m1)) mats) \<rparr>"

text \<open>
  What one run of the frame callback reads from outside: the viewport test of
  \<open>checkViewport\<close>, \<open>clock.getDelta()\<close>, the scroll state, the result of the raycast and
  the draws of \<open>Math.random()\<close>.
\<close>

record FrameEnv =
  inViewport :: bool
  clockDelta :: real
  scrollingNow :: bool
  hitsNow :: "Intersection list"
  randNow :: Rand

text \<open>The frame callback \<open>animate\<close> (lines 514 to 558).\<close>

definition animate :: "FrameEnv \<Rightarrow> SharedThreeScene \<Rightarrow> SharedThreeScene" where
  "animate env sc =
     (if contextLost sc \<or> \<not> isPageVisible sc then sc
      else
        (let sc1 = sc\<lparr> isInViewport := inViewport env \<rparr> in
         if \<not> isInViewport sc1 then sc1
         else
           (let (t, al) = AnimationLoop_update (clockDelta env) (animationLoop sc1);
                sc2 = sc1\<lparr> animationLoop := al \<rparr> in
            if shouldSkipFrame t then sc2
            else
              (let sc3 =
                     (if sceneModel sc2 \<noteq> None \<and> \<not> isMobile sc2 then
                        (case iceTrailEffect sc2 of
                           Some ice \<Rightarrow>
                             sc2\<lparr> iceTrailEffect := Some (IceTrail_update (tDelta t) (tElapsed t)
                                     (if \<not> scrollingNow env then hitsNow env else [])
                                     (scrollingNow env) (randNow env) ice) \<rparr>
                         | None \<Rightarrow> sc2)
                      else sc2);
                   sc4 = sc3\<lparr> smokeTime := tElapsed t \<rparr>
               in (case godrayPostProcessing sc4 of
                     Some g \<Rightarrow> sc4\<lparr> renders := renders sc4 @ [GodrayScenePass, GodrayCompositePass] \<rparr>
                   | None \<Rightarrow> sc4\<lparr> renders := renders sc4 @ [DirectRender] \<rparr>)))))"

text \<open>
  The handlers given to \<open>setupContextLossHandling\<close> and \<open>setupVisibilityHandling\<close>
  (lines 377 to 401). \<open>animationFrameId\<close> is never assigned, so the
  \<open>cancelAnimationFrame\<close> branches do nothing.
\<close>

definition onContextLost :: "SharedThreeScene \<Rightarrow> SharedThreeScene" where
  "onContextLost sc = sc\<lparr> contextLost := True \<rparr>"

definition onContextRestored :: "FrameEnv \<Rightarrow> SharedThreeScene \<Rightarrow> SharedThreeScene" where
  "onContextRestored env sc =
     (let sc1 = sc\<lparr> contextLost := False \<rparr>
      in if isPageVisible sc1 then animate env sc1 else sc1)"

definition onHidden :: "SharedThreeScene \<Rightarrow> SharedThreeScene" where
  "onHidden sc = sc\<lparr> isPageVisible := False \<rparr>"

definition onVisible :: "FrameEnv \<Rightarrow> SharedThreeScene \<Rightarrow> SharedThreeScene" where
  "onVisible env sc =
     (let sc1 = sc\<lparr> isPageVisible := True \<rparr>
      in if \<not> contextLost sc1 then animate env sc1 else sc1)"

text \<open>The resize callback (lines 485 to 499), as far as it touches the pipeline.\<close>

definition onResize :: "real \<Rightarrow> real \<Rightarrow> real \<Rightarrow> SharedThreeScene \<Rightarrow> SharedThreeScene" where
  "onResize w h newPixelRatio sc =
     (case godrayPostProcessing sc of
        Some g \<Rightarrow> sc\<lparr> godrayPostProcessing :=
                    Some \<lparr> targetWidth = w * newPixelRatio, targetHeight = h * newPixelRatio \<rparr> \<rparr>
      | None \<Rightarrow> sc)"

text \<open>Everything that can happen to a mounted scene, and a sequence of such events.\<close>

datatype SceneEvent =
    ContextLostEvent
  | ContextRestoredEvent FrameEnv
  | HiddenEvent
  | VisibleEvent FrameEnv
  | FrameEvent FrameEnv
  | ModelLoadedEvent "Material list"
  | ResizeEvent real real real

fun sceneStep :: "SharedThreeScene \<Rightarrow> SceneEvent \<Rightarrow> SharedThreeScene" where
  "sceneStep sc ContextLostEvent = onContextLost sc"
| "sceneStep sc (ContextRestoredEvent env) = onContextRestored env sc"
| "sceneStep sc HiddenEvent = onHidden sc"
| "sceneStep sc (VisibleEvent env) = onVisible env sc"
| "sceneStep sc (FrameEvent env) = animate env sc"
| "sceneStep sc (ModelLoadedEvent mats) = onModelLoaded mats sc"
| "sceneStep sc (ResizeEvent w h pr) = onResize w h pr sc"

definition sceneRun :: "SceneEvent list \<Rightarrow> SharedThreeScene \<Rightarrow> SharedThreeScene" where
  "sceneRun evs sc = foldl sceneStep sc evs"

text \<open>The scene is paused when either cause holds.\<close>

definition paused :: "SharedThreeScene \<Rightarrow> bool" where
  "paused sc = (contextLost sc \<or> \<not> isPageVisible sc)"

text \<open>
  The materials a \<open>GLTFLoader\<close> hands to the load callback are new: nothing has been
  injected into them yet.
\<close>

fun freshMaterials :: "SceneEvent \<Rightarrow> bool" where
  "freshMaterials (ModelLoadedEvent mats) = list_all (\<lambda>m. \<not> iceShaderInjected m) mats"
| "freshMaterials ev = True"

text \<open>What holds of a mobile scene from its construction on.\<close>

definition singlePass :: "SharedThreeScene \<Rightarrow> bool" where
  "singlePass sc =
     (isMobile sc \<and> iceTrailEffect sc = None \<and> godrayPostProcessing sc = None \<and>
      CIceTrailEffect \<notin> set (allocated sc) \<and> CGodrayPostProcessing \<notin> set (allocated sc) \<and>
      set (renders sc) \<subseteq> {DirectRender} \<and>
      (case sceneModel sc of None \<Rightarrow> True
       | Some ms \<Rightarrow> list_all (\<lambda>m. \<not> iceShaderInjected m) ms))"

section \<open>Micro-effect multiplexer (IceButtonManager)\<close>

text \<open>
  One registered button. Of the material only the two uniforms the frame loop writes are
  kept; \<open>canvasDrawn\<close> says whether the 2D canvas holds a rendered image (it is cleared
  otherwise), \<open>hasContext2d\<close> whether \<open>canvas.getContext('2d')\<close> gives a context.
\<close>

record IceButtonInstance =
  targetProgress :: real
  currentProgress :: real
  isActive :: bool
  uProgress :: real
  uTimeButton :: real
  canvasDrawn :: bool
  hasContext2d :: bool

text \<open>
  The manager. \<open>initialized\<close> stands for the renderer, scene, camera, geometry and clock,
  which \<open>initialize\<close> creates together; \<open>instances\<close> is the \<open>Map\<close>, in insertion order;
  \<open>frameRequested\<close> says that a \<open>requestAnimationFrame\<close> callback is pending.
\<close>

record IceButtonManager =
  initialized :: bool
  textures :: "IceTextures option"
  instances :: "(string \<times> IceButtonInstance) list"
  pendingRegistrations :: "(string \<times> bool) list"
  isAnimating :: bool
  frameRequested :: bool

definition IceButtonManager_new :: IceButtonManager where
  "IceButtonManager_new =
     \<lparr> initialized = False, textures = None, instances = [], pendingRegistrations = [],
       isAnimating = False, frameRequested = False \<rparr>"

text \<open>\<open>completeRegistration\<close>: \<open>Map.set\<close> keeps the place of a key that is already there.\<close>

definition completeRegistration :: "string \<Rightarrow> bool \<Rightarrow> IceButtonManager \<Rightarrow> IceButtonManager" where
  "completeRegistration k ctx m =
     m\<lparr> instances := AList.update k
            \<lparr> targetProgress = 0, currentProgress = 0, isActive = False, uProgress = 0,
              uTimeButton = 0, canvasDrawn = False, hasContext2d = ctx \<rparr> (instances m) \<rparr>"

definition processPendingRegistrations :: "IceButtonManager \<Rightarrow> IceButtonManager" where
  "processPendingRegistrations m =
     (if textures m = None then m
      else (foldl (\<lambda>s (k, ctx). completeRegistration k ctx s) m (pendingRegistrations m))
             \<lparr> pendingRegistrations := [] \<rparr>)"

text \<open>
  \<open>loadTextures\<close>: the callback it gives to \<open>loadSharedIceTextures\<close> (named 0 here) has
  run exactly when that call returned a bundle.
\<close>

definition loadTextures :: "IceButtonManager \<times> TextureLoaders \<Rightarrow> IceButtonManager \<times> TextureLoaders" where
  "loadTextures mt =
     (let (m, ld) = mt in
      case getSharedIceTextures ld of
        Some existing \<Rightarrow> (processPendingRegistrations (m\<lparr> textures := Some existing \<rparr>), ld)
      | None \<Rightarrow>
          (let (r, ld1) = loadSharedIceTextures (Some 0) ld in
           case r of
             Some b \<Rightarrow> (processPendingRegistrations (m\<lparr> textures := Some b \<rparr>), ld1)
           | None \<Rightarrow> (m, ld1)))"

definition initialize :: "IceButtonManager \<times> TextureLoaders \<Rightarrow> IceButtonManager \<times> TextureLoaders" where
  "initialize mt =
     (let (m, ld) = mt in
      if initialized m then (m, ld) else loadTextures (m\<lparr> initialized := True \<rparr>, ld))"

definition register :: "string \<Rightarrow> bool \<Rightarrow> IceButtonManager \<times> TextureLoaders \<Rightarrow> IceButtonManager \<times> TextureLoaders" where
  "register k ctx mt =
     (let (m, ld) = initialize mt in
      if textures m = None
      then (m\<lparr> pendingRegistrations := pendingRegistrations m @ [(k, ctx)] \<rparr>, ld)
      else (completeRegistration k ctx m, ld))"

text \<open>What a frame reads from the clock: \<open>getDelta()\<close> and \<open>getElapsedTime()\<close>.\<close>

record ButtonEnv =
  getDelta :: real
  getElapsedTime :: real

text \<open>The progress update of one button in the frame loop (lines 509 to 520).\<close>

definition stepProgress :: "real \<Rightarrow> real \<Rightarrow> IceButtonInstance \<Rightarrow> IceButtonInstance" where
  "stepProgress dt linearSpeed b =
     (let diff = targetProgress b - currentProgress b in
      if \<bar>diff\<bar> > 0.001 then
        (if diff > 0 then
           (let c = currentProgress b + dt * linearSpeed
            in b\<lparr> currentProgress := (if c > 1.0 then 1.0 else c) \<rparr>)
         else
           (let c = currentProgress b - dt * linearSpeed
            in b\<lparr> currentProgress := (if c < 0.0 then 0.0 else c) \<rparr>))
      else b)"

text \<open>Whether the button keeps the loop running (\<open>hasActiveAnimations\<close>, lines 511 to 524).\<close>

definition keepsAnimating :: "IceButtonInstance \<Rightarrow> bool" where
  "keepsAnimating b =
     (\<bar>targetProgress b - currentProgress b\<bar> > 0.001 \<or> currentProgress b > 0.001)"

text \<open>Rendering or clearing the canvas of one button (lines 527 to 568).\<close>

definition renderInstance :: "real \<Rightarrow> IceButtonInstance \<Rightarrow> IceButtonInstance" where
  "renderInstance t b =
     (if currentProgress b > 0.001 then
        (let b1 = b\<lparr> uTimeButton := t, uProgress := currentProgress b \<rparr>
         in if hasContext2d b1 then b1\<lparr> canvasDrawn := True \<rparr> else b1)
      else
        (let b1 = (if hasContext2d b then b\<lparr> canvasDrawn := False \<rparr> else b)
         in b1\<lparr> isActive := False \<rparr>))"

text \<open>The frame's delta time (lines 500 and 501): \<open>getDelta() || 0.016\<close>, capped at 0.1.\<close>

definition clampedDelta :: "ButtonEnv \<Rightarrow> real" where
  "clampedDelta env =
     (let rawDelta = (if getDelta env = 0 then 0.016 else getDelta env)
      in min rawDelta 0.1)"

text \<open>The frame loop \<open>animate\<close> of the manager (lines 495 to 577).\<close>

definition IceButtonManager_animate :: "ButtonEnv \<Rightarrow> IceButtonManager \<Rightarrow> IceButtonManager" where
  "IceButtonManager_animate env m =
     (if \<not> isAnimating m \<or> \<not> initialized m then m
      else
        (let dt = clampedDelta env;
             t = getElapsedTime env;
             linearSpeed = 0.12;
             hasActiveAnimations = list_ex (\<lambda>(k, b). keepsAnimating b) (instances m);
             m1 = m\<lparr> instances :=
                    map (\<lambda>(k, b). (k, renderInstance t (stepProgress dt linearSpeed b))) (instances m) \<rparr>
         in if hasActiveAnimations then m1\<lparr> frameRequested := True \<rparr>
            else m1\<lparr> isAnimating := False, frameRequested := False \<rparr>))"

definition startAnimation :: "ButtonEnv \<Rightarrow> IceButtonManager \<Rightarrow> IceButtonManager" where
  "startAnimation env m =
     (if isAnimating m then m else IceButtonManager_animate env (m\<lparr> isAnimating := True \<rparr>))"

definition stopAnimation :: "IceButtonManager \<Rightarrow> IceButtonManager" where
  "stopAnimation m = m\<lparr> isAnimating := False, frameRequested := False \<rparr>"

definition activate :: "string \<Rightarrow> ButtonEnv \<Rightarrow> IceButtonManager \<Rightarrow> IceButtonManager" where
  "activate k env m =
     (case map_of (instances m) k of
        Some b \<Rightarrow>
          startAnimation env
            (m\<lparr> instances := AList.update k (b\<lparr> isActive := True, targetProgress := 1.0 \<rparr>) (instances m) \<rparr>)
      | None \<Rightarrow> m)"

definition deactivate :: "string \<Rightarrow> IceButtonManager \<Rightarrow> IceButtonManager" where
  "deactivate k m =
     (case map_of (instances m) k of
        Some b \<Rightarrow> m\<lparr> instances := AList.update k (b\<lparr> targetProgress := 0.0 \<rparr>) (instances m) \<rparr>
      | None \<Rightarrow> m)"

definition unregister :: "string \<Rightarrow> IceButtonManager \<Rightarrow> IceButtonManager" where
  "unregister k m =
     (let m1 = (case map_of (instances m) k of
                  Some b \<Rightarrow> m\<lparr> instances := AList.delete k (instances m) \<rparr>
                | None \<Rightarrow> m)
      in if length (instances m1) = 0 then stopAnimation m1 else m1)"

text \<open>
  The calls the buttons make and the pending animation frame. The frame callback runs
  only when one was requested and not cancelled.
\<close>

datatype ButtonEvent =
    Register string bool
  | Unregister string
  | Activate string ButtonEnv
  | Deactivate string
  | AnimationFrame ButtonEnv

fun buttonStep :: "IceButtonManager \<times> TextureLoaders \<Rightarrow> ButtonEvent \<Rightarrow> IceButtonManager \<times> TextureLoaders" where
  "buttonStep mt (Register k ctx) = register k ctx mt"
| "buttonStep (m, ld) (Unregister k) = (unregister k m, ld)"
| "buttonStep (m, ld) (Activate k env) = (activate k env m, ld)"
| "buttonStep (m, ld) (Deactivate k) = (deactivate k m, ld)"
| "buttonStep (m, ld) (AnimationFrame env) =
     ((if frameRequested m then IceButtonManager_animate env m else m), ld)"

definition buttonRun ::
  "ButtonEvent list \<Rightarrow> IceButtonManager \<times> TextureLoaders \<Rightarrow> IceButtonManager \<times> TextureLoaders" where
  "buttonRun evs mt = foldl buttonStep mt evs"

text \<open>The clock never runs backwards: every \<open>getDelta()\<close> of a run is at least 0.\<close>

fun clockOk :: "ButtonEvent \<Rightarrow> bool" where
  "clockOk (Activate k env) = (0 \<le> getDelta env)"
| "clockOk (AnimationFrame env) = (0 \<le> getDelta env)"
| "clockOk ev = True"

text \<open>The progress of button \<open>k\<close>, when it is registered.\<close>

definition progressOf :: "IceButtonManager \<Rightarrow> string \<Rightarrow> real option" where
  "progressOf m k = map_option currentProgress (map_of (instances m) k)"

text \<open>
  What holds of every registered button: its progress is in [0, 1] and its target is 0 or
  1; and a manager that has buttons or is animating has been initialized.
\<close>

definition buttonOk :: "IceButtonInstance \<Rightarrow> bool" where
  "buttonOk b =
     (0 \<le> currentProgress b \<and> currentProgress b \<le> 1 \<and>
      (targetProgress b = 0 \<or> targetProgress b = 1))"

definition managerOk :: "IceButtonManager \<Rightarrow> bool" where
  "managerOk m =
     (list_all (\<lambda>(k, b). buttonOk b) (instances m) \<and>
      (instances m = [] \<or> initialized m) \<and> (\<not> isAnimating m \<or> initialized m))"

section \<open>Model cache (utils/TextureLoaders.ts, loadModel)\<close>

text \<open>
  A node of a loaded model: \<open>oid\<close> is the identity of the object, the three vectors are
  its transform, \<open>geometry\<close> and \<open>material\<close> are references to objects that are shared,
  \<open>children\<close> are the nodes below it (a node has one parent).
\<close>

type_synonym vec3 = "real \<times> real \<times> real"

datatype Object3D =
  Object3D (oid: nat) (position: vec3) (rotation: vec3) (scaling: vec3)
    (geometry: "nat option") (material: "nat option") (children: "Object3D list")

text \<open>
  \<open>Object3D.clone()\<close> is three.js, not code of this repository. It is modelled as the
  library documents it and as the specification relies on it ("every consumer receives a
  deep clone", "same geometry/materials"): every node of the hierarchy is a new object
  with the same transform, and the geometry and material references are copied as they
  are. The number threaded through is the next unused object identity.
\<close>

fun cloneObject :: "nat \<Rightarrow> Object3D \<Rightarrow> Object3D \<times> nat"
  and cloneChildren :: "nat \<Rightarrow> Object3D list \<Rightarrow> Object3D list \<times> nat" where
  "cloneObject n (Object3D i p r s g m cs) =
     (let (cs1, n1) = cloneChildren (Suc n) cs in (Object3D n p r s g m cs1, n1))"
| "cloneChildren n [] = ([], n)"
| "cloneChildren n (c # cs) =
     (let (c1, n1) = cloneObject n c;
          (cs1, n2) = cloneChildren n1 cs
      in (c1 # cs1, n2))"

text \<open>The identities of all nodes of a hierarchy, and the hierarchy without identities.\<close>

fun oids :: "Object3D \<Rightarrow> nat set" where
  "oids (Object3D i p r s g m cs) = insert i (\<Union> (oids ` set cs))"

datatype Shape = Shape vec3 vec3 vec3 "nat option" "nat option" "Shape list"

fun shapeOf :: "Object3D \<Rightarrow> Shape" where
  "shapeOf (Object3D i p r s g m cs) = Shape p r s g m (map shapeOf cs)"

text \<open>
  The module state: \<open>modelCache\<close> maps a path to the address of the cached group,
  \<open>heap\<close> maps the address of a group to its hierarchy (the address of a group is the
  identity of its root), \<open>nextOid\<close> is the next unused identity.
\<close>

record ModelLoaders =
  modelCache :: "string \<rightharpoonup> nat"
  heap :: "nat \<rightharpoonup> Object3D"
  nextOid :: nat

definition ModelLoaders_init :: ModelLoaders where
  "ModelLoaders_init = \<lparr> modelCache = Map.empty, heap = Map.empty, nextOid = 0 \<rparr>"

text \<open>Putting a new hierarchy, a copy of \<open>t\<close>, on the heap; its address is returned.\<close>

definition allocClone :: "Object3D \<Rightarrow> ModelLoaders \<Rightarrow> nat \<times> ModelLoaders" where
  "allocClone t st =
     (let (c, n) = cloneObject (nextOid st) t
      in (oid c, st\<lparr> heap := (heap st)(oid c \<mapsto> c), nextOid := n \<rparr>))"

text \<open>
  \<open>loadModel(path)\<close> up to its first suspension: on a cache hit the promise is resolved
  with a clone of the cached group; otherwise the loader is started and the promise is
  pending.
\<close>

datatype LoadResult = Resolved nat | Pending

definition loadModel :: "string \<Rightarrow> ModelLoaders \<Rightarrow> LoadResult \<times> ModelLoaders" where
  "loadModel path st =
     (case modelCache st path of
        Some a \<Rightarrow>
          (case heap st a of
             Some t \<Rightarrow> (let (r, st1) = allocClone t st in (Resolved r, st1))
           | None \<Rightarrow> (Pending, st))
      | None \<Rightarrow> (Pending, st))"

text \<open>
  The success callback of \<open>loader.load\<close> (lines 229 to 238). \<open>parsed\<close> is the content of
  the file: the loader builds \<open>gltf.scene\<close> from it as new objects. The callback caches
  the scene and resolves the promise with a clone of it; the address of that clone is
  returned.
\<close>

definition loadModel_onLoad :: "string \<Rightarrow> Object3D \<Rightarrow> ModelLoaders \<Rightarrow> nat \<times> ModelLoaders" where
  "loadModel_onLoad path parsed st =
     (let (model, st1) = allocClone parsed st;
          st2 = st1\<lparr> modelCache := (modelCache st1)(path \<mapsto> model) \<rparr>
      in allocClone (the (heap st2 model)) st2)"

text \<open>The error callback caches nothing; the promise is rejected.\<close>

definition loadModel_onError :: "string \<Rightarrow> ModelLoaders \<Rightarrow> ModelLoaders" where
  "loadModel_onError path st = st"

text \<open>A consumer moving the group at address \<open>a\<close>, as \<open>model.position.set\<close> does.\<close>

fun withPosition :: "vec3 \<Rightarrow> Object3D \<Rightarrow> Object3D" where
  "withPosition v (Object3D i p r s g m cs) = Object3D i v r s g m cs"

definition setPosition :: "nat \<Rightarrow> vec3 \<Rightarrow> ModelLoaders \<Rightarrow> ModelLoaders" where
  "setPosition a v st =
     (case heap st a of
        Some t \<Rightarrow> st\<lparr> heap := (heap st)(a \<mapsto> withPosition v t) \<rparr>
      | None \<Rightarrow> st)"

text \<open>
  The heap is well formed when every group is stored at the identity of its root and all
  identities in use are below \<open>nextOid\<close>, and every cached address is on the heap.
\<close>

definition heapOk :: "ModelLoaders \<Rightarrow> bool" where
  "heapOk st =
     ((\<forall>a t. heap st a = Some t \<longrightarrow> oid t = a \<and> (\<forall>i \<in> oids t. i < nextOid st)) \<and>
      (\<forall>p a. modelCache st p = Some a \<longrightarrow> heap st a \<noteq> None))"

text \<open>
  What the consumers of two results of \<open>loadModel(path)\<close> rely on, in a state \<open>st\<close>
  with the results at addresses \<open>r1\<close> and \<open>r2\<close>: the two groups and the cached group
  are three different objects with no node in common, and both results have the cached
  group's hierarchy, transforms, geometries and materials.
\<close>

definition independentClones :: "ModelLoaders \<Rightarrow> string \<Rightarrow> nat \<Rightarrow> nat \<Rightarrow> bool" where
  "independentClones st path r1 r2 =
     (case modelCache st path of
        None \<Rightarrow> False
      | Some c \<Rightarrow>
          (case (heap st c, heap st r1, heap st r2) of
             (Some t, Some t1, Some t2) \<Rightarrow>
               r1 \<noteq> r2 \<and> r1 \<noteq> c \<and> r2 \<noteq> c \<and>
               shapeOf t1 = shapeOf t \<and> shapeOf t2 = shapeOf t \<and>
               oids t1 \<inter> oids t2 = {} \<and> oids t1 \<inter> oids t = {} \<and> oids t2 \<inter> oids t = {}
           | _ \<Rightarrow> False))"

text \<open>
  Moving the group at \<open>a\<close> to \<open>v\<close> changes the position of that group and nothing else:
  neither the cache nor any other group on the heap.
\<close>

definition movesOnly :: "ModelLoaders \<Rightarrow> nat \<Rightarrow> vec3 \<Rightarrow> bool" where
  "movesOnly st a v =
     (map_option position (heap (setPosition a v st) a) = Some v \<and>
      modelCache (setPosition a v st) = modelCache st \<and>
      (\<forall>a'. a' \<noteq> a \<longrightarrow> heap (setPosition a v st) a' = heap st a'))"

section \<open>Example inputs\<close>

text \<open>
  A call of \<open>update\<close> while the pointer is on the model at uv \<open>p\<close> (one intersection, no
  scrolling) and one while it is off the model. No melt fires (every melt draw is 0.5),
  the fade-speed draw is 0 and \<open>a\<close> is the draw for the maximum age.
\<close>

definition quietDraws :: "real \<Rightarrow> Rand" where
  "quietDraws a = \<lparr> meltDraw = (\<lambda>i. 0.5), fadeDraw = 0, ageDraw = a \<rparr>"

definition hitFrame :: "real \<Rightarrow> real \<Rightarrow> real \<times> real \<Rightarrow> real \<Rightarrow> Frame" where
  "hitFrame dt e p a =
     \<lparr> deltaTime = dt, elapsedTime = e, intersects = [\<lparr> uv = Some p \<rparr>], isScrolling = False,
       rand = quietDraws a \<rparr>"

definition idleFrame :: "real \<Rightarrow> real \<Rightarrow> Frame" where
  "idleFrame dt e =
     \<lparr> deltaTime = dt, elapsedTime = e, intersects = [], isScrolling = False,
       rand = quietDraws 0 \<rparr>"



text \<open>
  A run that fills the ring buffer. Call 1 creates a point with maximum age 2 at uv
  \<open>(1, 0)\<close>; call 2 comes 2 seconds later (the tab was hidden in between) and creates a
  point with maximum age 4.7 at \<open>(2, 0)\<close>; from then on a call comes every 50 ms, call
  \<open>k\<close> creating a point at \<open>(k, 0)\<close>.
\<close>

definition wrapFrame :: "nat \<Rightarrow> Frame" where
  "wrapFrame k =
     (if k = 1 then hitFrame (1 / 60) 1 (1, 0) 0
      else if k = 2 then hitFrame 2 3 (2, 0) (9 / 10)
      else hitFrame (1 / 20) (3 + (real k - 2) / 20) (real k, 0) (9 / 10))"

definition wrapFrames :: "nat \<Rightarrow> Frame list" where
  "wrapFrames n = map wrapFrame [1..<Suc n]"



text \<open>
  A frame in which the container is in the viewport, 1/60 s after the previous one, with
  no scrolling and the pointer off the model; a desktop hero scene and a mobile one, in
  an 800 by 600 container; one mesh material as the loader delivers it.
\<close>

definition quietEnv :: FrameEnv where
  "quietEnv =
     \<lparr> inViewport = True, clockDelta = 1 / 60, scrollingNow = False, hitsNow = [],
       randNow = quietDraws 0 \<rparr>"

definition desktopScene :: SharedThreeScene where
  "desktopScene = SharedThreeScene_mount Hero False 800 600 1"

definition mobileScene :: SharedThreeScene where
  "mobileScene = SharedThreeScene_mount Hero True 800 600 1"

definition loadedMaterial :: Material where
  "loadedMaterial = \<lparr> metalMaps = False, iceShaderInjected = False \<rparr>"

text \<open>
  A button is registered, the pointer enters it (the clock has just been started, so
  \<open>getDelta()\<close> is 0) and one animation frame follows after 1/60 s. The last frame
  environment is the first frame after the tab was hidden for an hour.
\<close>

definition startEnv :: ButtonEnv where
  "startEnv = \<lparr> getDelta = 0, getElapsedTime = 0 \<rparr>"

definition frameEnv :: ButtonEnv where
  "frameEnv = \<lparr> getDelta = 1 / 60, getElapsedTime = 1 / 60 \<rparr>"

definition staleEnv :: ButtonEnv where
  "staleEnv = \<lparr> getDelta = 3600, getElapsedTime = 3601 \<rparr>"

definition hoverEvents :: "ButtonEvent list" where
  "hoverEvents = [Register ''buy'' True, Activate ''buy'' startEnv, AnimationFrame frameEnv]"

definition hoverManager :: IceButtonManager where
  "hoverManager = fst (buttonRun hoverEvents (IceButtonManager_new, TextureLoaders_init))"

text \<open>
  A model file with a root group and one mesh below it; the first \<open>loadModel\<close> of its
  path, completed by the loader, and a second \<open>loadModel\<close> of the same path.
\<close>

definition logoPath :: string where
  "logoPath = ''/assets/dtd_logo7.glb''"

definition logoFile :: Object3D where
  "logoFile =
     Object3D 0 (0, 0, 0) (0, 0, 0) (1, 1, 1) None None
       [Object3D 0 (0, 1, 0) (0, 0, 0) (1, 1, 1) (Some 100) (Some 200) []]"

definition firstLoad :: "nat \<times> ModelLoaders" where
  "firstLoad = loadModel_onLoad logoPath logoFile ModelLoaders_init"

definition secondLoad :: "LoadResult \<times> ModelLoaders" where
  "secondLoad = loadModel logoPath (snd firstLoad)"

section \<open>Basic facts about the fade loop\<close>

lemma fadePoint_meta [simp]: "trailMeta (fadePoint dt melt st i) = trailMeta st"
  by (simp add: fadePoint_def Let_def)

lemma fadePoint_index [simp]: "trailIndex (fadePoint dt melt st i) = trailIndex st"
  by (simp add: fadePoint_def Let_def)

lemma fadePoint_count [simp]: "trailCount (fadePoint dt melt st i) = trailCount st"
  by (simp add: fadePoint_def Let_def)

lemma fadePoint_last [simp]: "lastTrailTime (fadePoint dt melt st i) = lastTrailTime st"
  by (simp add: fadePoint_def Let_def)

lemma fadePoint_version [simp]: "textureVersion (fadePoint dt melt st i) = textureVersion st"
  by (simp add: fadePoint_def Let_def)

lemma fadePoint_length [simp]:
  "length (trailData (fadePoint dt melt st i)) = length (trailData st)"
  by (simp add: fadePoint_def Let_def)

lemma fadePoint_other:
  "k \<noteq> i * 4 + 2 \<Longrightarrow> k \<noteq> i * 4 + 3 \<Longrightarrow> trailData (fadePoint dt melt st i) ! k = trailData st ! k"
  by (simp add: fadePoint_def Let_def)

lemma fadePoint_age:
  "i * 4 + 3 < length (trailData st) \<Longrightarrow>
   slotAge (fadePoint dt melt st i) i =
     (if slotIntensity st i > 0 then slotAge st i + dt else slotAge st i)"
  by (simp add: fadePoint_def Let_def slotAge_def slotIntensity_def)

lemma fadePoint_intensity:
  "i * 4 + 3 < length (trailData st) \<Longrightarrow>
   slotIntensity (fadePoint dt melt st i) i =
     (if slotIntensity st i > 0
      then (if melt i < 0.002
            then max 0 (rawIntensity (slotAge st i + dt) (slotMaxAge st i)) * 0.7
            else max 0 (rawIntensity (slotAge st i + dt) (slotMaxAge st i)))
      else slotIntensity st i)"
  by (simp add: fadePoint_def Let_def slotAge_def slotIntensity_def slotMaxAge_def)

lemma fadePoint_cong:
  assumes "trailData s ! (i * 4 + 2) = trailData t ! (i * 4 + 2)"
    and "trailData s ! (i * 4 + 3) = trailData t ! (i * 4 + 3)"
    and "trailMeta s = trailMeta t"
    and "length (trailData s) = length (trailData t)"
    and "i * 4 + 3 < length (trailData t)"
  shows "trailData (fadePoint dt melt s i) ! (i * 4 + 2) = trailData (fadePoint dt melt t i) ! (i * 4 + 2)"
    and "trailData (fadePoint dt melt s i) ! (i * 4 + 3) = trailData (fadePoint dt melt t i) ! (i * 4 + 3)"
  using assms by (simp_all add: fadePoint_def Let_def)

lemma foldl_fadePoint_fields [simp]:
  "trailMeta (foldl (fadePoint dt melt) st xs) = trailMeta st"
  "trailIndex (foldl (fadePoint dt melt) st xs) = trailIndex st"
  "trailCount (foldl (fadePoint dt melt) st xs) = trailCount st"
  "lastTrailTime (foldl (fadePoint dt melt) st xs) = lastTrailTime st"
  "textureVersion (foldl (fadePoint dt melt) st xs) = textureVersion st"
  "length (trailData (foldl (fadePoint dt melt) st xs)) = length (trailData st)"
  by (induction xs arbitrary: st) simp_all

lemma foldl_fadePoint_data:
  "n * 4 \<le> length (trailData st) \<Longrightarrow>
   trailData (foldl (fadePoint dt melt) st [0..<n]) ! k =
     (if k < n * 4 then trailData (fadePoint dt melt st (k div 4)) ! k else trailData st ! k)"
proof (induction n arbitrary: k)
  case 0
  then show ?case by simp
next
  case (Suc n)
  let ?s = "foldl (fadePoint dt melt) st [0..<n]"
  have len: "n * 4 \<le> length (trailData st)" and lt: "n * 4 + 3 < length (trailData st)"
    using Suc.prems by simp_all
  have IH: "trailData ?s ! j =
     (if j < n * 4 then trailData (fadePoint dt melt st (j div 4)) ! j else trailData st ! j)" for j
    using Suc.IH[OF len] .
  have step: "foldl (fadePoint dt melt) st [0..<Suc n] = fadePoint dt melt ?s n"
    by simp
  consider (slot) "k = n * 4 + 2 \<or> k = n * 4 + 3" | (other) "k \<noteq> n * 4 + 2" "k \<noteq> n * 4 + 3"
    by blast
  then show ?case
  proof cases
    case slot
    have d: "k div 4 = n" using slot by auto
    have c: "trailData (fadePoint dt melt ?s n) ! k = trailData (fadePoint dt melt st n) ! k"
      using slot fadePoint_cong[of ?s n st dt melt] IH lt by auto
    show ?thesis using slot c d by (auto simp: step)
  next
    case other
    have "trailData (fadePoint dt melt ?s n) ! k = trailData ?s ! k"
      using other by (simp add: fadePoint_other)
    moreover have "k < Suc n * 4 \<Longrightarrow> \<not> k < n * 4 \<Longrightarrow> k div 4 = n" by auto
    ultimately show ?thesis
      using other IH[of k] by (auto simp: step fadePoint_other)
  qed
qed


lemma fadeAll_fields [simp]:
  "trailMeta (fadeAll dt melt st) = trailMeta st"
  "trailIndex (fadeAll dt melt st) = trailIndex st"
  "trailCount (fadeAll dt melt st) = trailCount st"
  "lastTrailTime (fadeAll dt melt st) = lastTrailTime st"
  "textureVersion (fadeAll dt melt st) = textureVersion st"
  "length (trailData (fadeAll dt melt st)) = length (trailData st)"
  by (simp_all add: fadeAll_def)

lemma fadeAll_data:
  assumes "length (trailData st) = maxTrailPoints * 4" and "i < maxTrailPoints" and "k div 4 = i"
  shows "trailData (fadeAll dt melt st) ! k = trailData (fadePoint dt melt st i) ! k"
proof -
  have "k < maxTrailPoints * 4" using assms(2,3) by auto
  then show ?thesis
    using foldl_fadePoint_data[of maxTrailPoints st dt melt k] assms
    by (simp add: fadeAll_def)
qed

lemma fadeAll_uv:
  assumes "length (trailData st) = maxTrailPoints * 4" and "i < maxTrailPoints"
  shows "slotUv (fadeAll dt melt st) i = slotUv st i"
proof -
  have "trailData (fadeAll dt melt st) ! (i * 4) = trailData (fadePoint dt melt st i) ! (i * 4)"
    by (rule fadeAll_data[OF assms]) simp
  moreover have "trailData (fadeAll dt melt st) ! (i * 4 + 1) =
      trailData (fadePoint dt melt st i) ! (i * 4 + 1)"
    by (rule fadeAll_data[OF assms]) simp
  moreover have "trailData (fadePoint dt melt st i) ! (i * 4) = trailData st ! (i * 4)"
    by (rule fadePoint_other) simp_all
  moreover have "trailData (fadePoint dt melt st i) ! (i * 4 + 1) = trailData st ! (i * 4 + 1)"
    by (rule fadePoint_other) simp_all
  ultimately show ?thesis unfolding slotUv_def by (simp only:)
qed

lemma fadeAll_age:
  assumes "length (trailData st) = maxTrailPoints * 4" and "i < maxTrailPoints"
  shows "slotAge (fadeAll dt melt st) i =
     (if slotIntensity st i > 0 then slotAge st i + dt else slotAge st i)"
proof -
  have a: "i * 4 + 3 < length (trailData st)" using assms by simp
  have "slotAge (fadeAll dt melt st) i = slotAge (fadePoint dt melt st i) i"
    unfolding slotAge_def by (rule fadeAll_data[OF assms]) simp
  then show ?thesis by (simp only: fadePoint_age[OF a])
qed

lemma fadeAll_intensity:
  assumes "length (trailData st) = maxTrailPoints * 4" and "i < maxTrailPoints"
  shows "slotIntensity (fadeAll dt melt st) i =
     (if slotIntensity st i > 0
      then (if melt i < 0.002
            then max 0 (rawIntensity (slotAge st i + dt) (slotMaxAge st i)) * 0.7
            else max 0 (rawIntensity (slotAge st i + dt) (slotMaxAge st i)))
      else slotIntensity st i)"
proof -
  have a: "i * 4 + 3 < length (trailData st)" using assms by simp
  have "slotIntensity (fadeAll dt melt st) i = slotIntensity (fadePoint dt melt st i) i"
    unfolding slotIntensity_def by (rule fadeAll_data[OF assms]) simp
  then show ?thesis by (simp only: fadePoint_intensity[OF a])
qed

lemma fadeAll_maxAge [simp]: "slotMaxAge (fadeAll dt melt st) i = slotMaxAge st i"
  by (simp add: slotMaxAge_def)

lemma sized_fadeAll [simp]: "sized (fadeAll dt melt st) = sized st"
  by (simp add: sized_def)

lemma slot_index_neq:
  "i \<noteq> j \<Longrightarrow> (i::nat) * 4 + a \<noteq> j * 4 + b" if "a < 4" "b < 4"
  using that by presburger

lemma insertPoint_fields [simp]:
  "trailIndex (insertPoint e h rnd st) = (trailIndex st + 1) mod maxTrailPoints"
  "trailCount (insertPoint e h rnd st) = min (trailCount st + 1) maxTrailPoints"
  "lastTrailTime (insertPoint e h rnd st) = e"
  "textureVersion (insertPoint e h rnd st) = textureVersion st"
  "length (trailData (insertPoint e h rnd st)) = length (trailData st)"
  "length (trailMeta (insertPoint e h rnd st)) = length (trailMeta st)"
  by (simp_all add: insertPoint_def Let_def)

lemma sized_insertPoint: "sized st \<Longrightarrow> sized (insertPoint e h rnd st)"
  by (simp add: sized_def maxTrailPoints_def)

lemma insertPoint_uv:
  assumes "sized st" and "i < maxTrailPoints"
  shows "slotUv (insertPoint e h rnd st) i = (if i = trailIndex st then h else slotUv st i)"
proof (cases "i = trailIndex st")
  case True
  then show ?thesis using assms
    by (simp add: insertPoint_def Let_def slotUv_def sized_def maxTrailPoints_def)
next
  case False
  then show ?thesis
    using slot_index_neq[OF _ _ False]
    by (simp add: insertPoint_def Let_def slotUv_def)
qed


lemma meta_index_neq:
  "i \<noteq> j \<Longrightarrow> (i::nat) * 2 + a \<noteq> j * 2 + b" if "a < 2" "b < 2"
  using that by presburger

lemma insertPoint_age:
  assumes "sized st" and "i < maxTrailPoints"
  shows "slotAge (insertPoint e h rnd st) i = (if i = trailIndex st then 0 else slotAge st i)"
proof (cases "i = trailIndex st")
  case True
  then show ?thesis using assms
    by (simp add: insertPoint_def Let_def slotAge_def sized_def maxTrailPoints_def)
next
  case False
  then show ?thesis
    using slot_index_neq[OF _ _ False]
    by (simp add: insertPoint_def Let_def slotAge_def)
qed

lemma insertPoint_intensity:
  assumes "sized st" and "i < maxTrailPoints"
  shows "slotIntensity (insertPoint e h rnd st) i =
           (if i = trailIndex st then 1 else slotIntensity st i)"
proof (cases "i = trailIndex st")
  case True
  then show ?thesis using assms
    by (simp add: insertPoint_def Let_def slotIntensity_def sized_def maxTrailPoints_def)
next
  case False
  then show ?thesis
    using slot_index_neq[OF _ _ False]
    by (simp add: insertPoint_def Let_def slotIntensity_def)
qed

lemma insertPoint_maxAge:
  assumes "sized st" and "i < maxTrailPoints"
  shows "slotMaxAge (insertPoint e h rnd st) i =
           (if i = trailIndex st then 2 + ageDraw rnd * 3 else slotMaxAge st i)"
proof (cases "i = trailIndex st")
  case True
  then show ?thesis using assms
    by (simp add: insertPoint_def Let_def slotMaxAge_def sized_def maxTrailPoints_def)
next
  case False
  then show ?thesis
    using meta_index_neq[OF _ _ False]
    by (simp add: insertPoint_def Let_def slotMaxAge_def)
qed

lemma shouldInsert_fadeAll [simp]:
  "shouldInsert e ints scr (fadeAll dt melt st) = shouldInsert e ints scr st"
  by (simp add: shouldInsert_def)

lemma update_index:
  "trailIndex (IceTrail_update dt e ints scr rnd st) =
     (if shouldInsert e ints scr st then (trailIndex st + 1) mod maxTrailPoints else trailIndex st)"
  by (simp add: IceTrail_update_def Let_def)

lemma update_count:
  "trailCount (IceTrail_update dt e ints scr rnd st) =
     (if shouldInsert e ints scr st then min (trailCount st + 1) maxTrailPoints else trailCount st)"
  by (simp add: IceTrail_update_def Let_def)

lemma update_last:
  "lastTrailTime (IceTrail_update dt e ints scr rnd st) =
     (if shouldInsert e ints scr st then e else lastTrailTime st)"
  by (simp add: IceTrail_update_def Let_def)

lemma update_uTrailCount:
  "uTrailCount (IceTrail_update dt e ints scr rnd st) =
     trailCount (IceTrail_update dt e ints scr rnd st)"
  by (simp add: IceTrail_update_def Let_def)

lemma update_data:
  "trailData (IceTrail_update dt e ints scr rnd st) =
     (if shouldInsert e ints scr st
      then trailData (insertPoint e (the (uv (hd ints))) rnd (fadeAll dt (meltDraw rnd) st))
      else trailData (fadeAll dt (meltDraw rnd) st))"
  by (simp add: IceTrail_update_def Let_def)

lemma update_meta:
  "trailMeta (IceTrail_update dt e ints scr rnd st) =
     (if shouldInsert e ints scr st
      then trailMeta (insertPoint e (the (uv (hd ints))) rnd (fadeAll dt (meltDraw rnd) st))
      else trailMeta st)"
  by (simp add: IceTrail_update_def Let_def)

lemma sized_update: "sized st \<Longrightarrow> sized (IceTrail_update dt e ints scr rnd st)"
  by (simp add: sized_def update_index update_data update_meta maxTrailPoints_def)

lemma slot_cong:
  "trailData s = trailData t \<Longrightarrow> slotUv s i = slotUv t i"
  "trailData s = trailData t \<Longrightarrow> slotAge s i = slotAge t i"
  "trailData s = trailData t \<Longrightarrow> slotIntensity s i = slotIntensity t i"
  "trailMeta s = trailMeta t \<Longrightarrow> slotMaxAge s i = slotMaxAge t i"
  by (simp_all add: slotUv_def slotAge_def slotIntensity_def slotMaxAge_def)

lemma update_uv:
  assumes "sized st" and "i < maxTrailPoints"
  shows "slotUv (IceTrail_update dt e ints scr rnd st) i =
     (if shouldInsert e ints scr st \<and> i = trailIndex st then the (uv (hd ints)) else slotUv st i)"
proof -
  have len: "length (trailData st) = maxTrailPoints * 4" using assms(1) by (simp add: sized_def)
  have sz: "sized (fadeAll dt (meltDraw rnd) st)" using assms(1) by simp
  show ?thesis
  proof (cases "shouldInsert e ints scr st")
    case True
    then have "slotUv (IceTrail_update dt e ints scr rnd st) i =
        slotUv (insertPoint e (the (uv (hd ints))) rnd (fadeAll dt (meltDraw rnd) st)) i"
      by (intro slot_cong) (simp add: update_data)
    then show ?thesis
      using True by (simp add: insertPoint_uv[OF sz assms(2)] fadeAll_uv[OF len assms(2)])
  next
    case False
    then have "slotUv (IceTrail_update dt e ints scr rnd st) i = slotUv (fadeAll dt (meltDraw rnd) st) i"
      by (intro slot_cong) (simp add: update_data)
    then show ?thesis
      using False by (simp add: fadeAll_uv[OF len assms(2)])
  qed
qed

lemma update_age:
  assumes "sized st" and "i < maxTrailPoints"
  shows "slotAge (IceTrail_update dt e ints scr rnd st) i =
     (if shouldInsert e ints scr st \<and> i = trailIndex st then 0
      else if slotIntensity st i > 0 then slotAge st i + dt else slotAge st i)"
proof -
  have len: "length (trailData st) = maxTrailPoints * 4" using assms(1) by (simp add: sized_def)
  have sz: "sized (fadeAll dt (meltDraw rnd) st)" using assms(1) by simp
  show ?thesis
  proof (cases "shouldInsert e ints scr st")
    case True
    then have "slotAge (IceTrail_update dt e ints scr rnd st) i =
        slotAge (insertPoint e (the (uv (hd ints))) rnd (fadeAll dt (meltDraw rnd) st)) i"
      by (intro slot_cong) (simp add: update_data)
    then show ?thesis
      using True by (simp add: insertPoint_age[OF sz assms(2)] fadeAll_age[OF len assms(2)])
  next
    case False
    then have "slotAge (IceTrail_update dt e ints scr rnd st) i = slotAge (fadeAll dt (meltDraw rnd) st) i"
      by (intro slot_cong) (simp add: update_data)
    then show ?thesis
      using False by (simp add: fadeAll_age[OF len assms(2)])
  qed
qed

lemma update_intensity:
  assumes "sized st" and "i < maxTrailPoints"
  shows "slotIntensity (IceTrail_update dt e ints scr rnd st) i =
     (if shouldInsert e ints scr st \<and> i = trailIndex st then 1
      else if slotIntensity st i > 0
        then (if meltDraw rnd i < 0.002
              then max 0 (rawIntensity (slotAge st i + dt) (slotMaxAge st i)) * 0.7
              else max 0 (rawIntensity (slotAge st i + dt) (slotMaxAge st i)))
        else slotIntensity st i)"
proof -
  have len: "length (trailData st) = maxTrailPoints * 4" using assms(1) by (simp add: sized_def)
  have sz: "sized (fadeAll dt (meltDraw rnd) st)" using assms(1) by simp
  show ?thesis
  proof (cases "shouldInsert e ints scr st")
    case True
    then have "slotIntensity (IceTrail_update dt e ints scr rnd st) i =
        slotIntensity (insertPoint e (the (uv (hd ints))) rnd (fadeAll dt (meltDraw rnd) st)) i"
      by (intro slot_cong) (simp add: update_data)
    then show ?thesis
      using True by (simp add: insertPoint_intensity[OF sz assms(2)] fadeAll_intensity[OF len assms(2)])
  next
    case False
    then have "slotIntensity (IceTrail_update dt e ints scr rnd st) i =
        slotIntensity (fadeAll dt (meltDraw rnd) st) i"
      by (intro slot_cong) (simp add: update_data)
    then show ?thesis
      using False by (simp add: fadeAll_intensity[OF len assms(2)])
  qed
qed

lemma update_maxAge:
  assumes "sized st" and "i < maxTrailPoints"
  shows "slotMaxAge (IceTrail_update dt e ints scr rnd st) i =
     (if shouldInsert e ints scr st \<and> i = trailIndex st then 2 + ageDraw rnd * 3
      else slotMaxAge st i)"
proof -
  have sz: "sized (fadeAll dt (meltDraw rnd) st)" using assms(1) by simp
  show ?thesis
  proof (cases "shouldInsert e ints scr st")
    case True
    then have "slotMaxAge (IceTrail_update dt e ints scr rnd st) i =
        slotMaxAge (insertPoint e (the (uv (hd ints))) rnd (fadeAll dt (meltDraw rnd) st)) i"
      by (intro slot_cong) (simp add: update_meta)
    then show ?thesis
      using True by (simp add: insertPoint_maxAge[OF sz assms(2)])
  next
    case False
    then have "slotMaxAge (IceTrail_update dt e ints scr rnd st) i = slotMaxAge st i"
      by (intro slot_cong) (simp add: update_meta)
    then show ?thesis using False by simp
  qed
qed

section \<open>A bound on pi\<close>



section \<open>The decay formula\<close>

lemma fadeExponent_alt: "fadeExponent a = 3 / 2 + sin (a * 3) * (3 / 10)"
  by (simp add: fadeExponent_def)

lemma fadeExponent_bounds: "6 / 5 \<le> fadeExponent a" "fadeExponent a \<le> 9 / 5"
proof -
  have "- 1 \<le> sin (a * 3)" "sin (a * 3) \<le> 1" by simp_all
  then show "6 / 5 \<le> fadeExponent a" "fadeExponent a \<le> 9 / 5"
    unfolding fadeExponent_alt by linarith+
qed

lemma fadeExponent_pos: "0 < fadeExponent a"
  using fadeExponent_bounds(1)[of a] by linarith

lemma fadeCurve_nonneg: "0 \<le> fadeCurve a M"
  by (simp add: fadeCurve_def Math_pow_def)

lemma fadeCurve_ge_one:
  assumes "0 < M" and "M \<le> a"
  shows "1 \<le> fadeCurve a M"
proof -
  have "1 \<le> a / M" using assms by simp
  then show ?thesis
    unfolding fadeCurve_def Math_pow_def
    using fadeExponent_pos[of a] by (intro ge_one_powr_ge_zero) simp_all
qed

lemma fadeCurve_less_one:
  assumes "0 < M" and "0 \<le> a" and "a < M"
  shows "fadeCurve a M < 1"
proof -
  have x: "0 \<le> a / M" "a / M < 1" using assms by simp_all
  show ?thesis
  proof (cases "a / M = 0")
    case True
    show ?thesis unfolding fadeCurve_def Math_pow_def True by simp
  next
    case False
    then have "0 < a / M" using x(1) by linarith
    then show ?thesis
      unfolding fadeCurve_def Math_pow_def
      using x(2) fadeExponent_pos[of a] powr01_less_one[of "a / M" "fadeExponent a"] by blast
  qed
qed

lemma rawIntensity_le_one: "rawIntensity a M \<le> 1"
  using fadeCurve_nonneg[of a M] by (simp add: rawIntensity_def)

lemma rawIntensity_nonpos: "0 < M \<Longrightarrow> M \<le> a \<Longrightarrow> rawIntensity a M \<le> 0"
  using fadeCurve_ge_one[of M a] by (simp add: rawIntensity_def)

lemma rawIntensity_pos: "0 < M \<Longrightarrow> 0 \<le> a \<Longrightarrow> a < M \<Longrightarrow> 0 < rawIntensity a M"
  using fadeCurve_less_one[of M a] by (simp add: rawIntensity_def)

lemma sized_new: "sized IceTrail_new"
  by (simp add: sized_def IceTrail_new_def maxTrailPoints_def)

lemma new_fields [simp]:
  "trailIndex IceTrail_new = 0" "trailCount IceTrail_new = 0" "lastTrailTime IceTrail_new = 0"
  by (simp_all add: IceTrail_new_def)

lemma new_slots:
  assumes "i < maxTrailPoints"
  shows "slotIntensity IceTrail_new i = 0" "slotAge IceTrail_new i = 0" "slotMaxAge IceTrail_new i = 0"
  using assms
  by (simp_all add: slotIntensity_def slotAge_def slotMaxAge_def IceTrail_new_def maxTrailPoints_def)

lemma quietDraws_fields [simp]:
  "meltDraw (quietDraws a) i = 1 / 2" "fadeDraw (quietDraws a) = 0" "ageDraw (quietDraws a) = a"
  by (simp_all add: quietDraws_def)

lemma hitFrame_fields [simp]:
  "deltaTime (hitFrame dt e p a) = dt" "elapsedTime (hitFrame dt e p a) = e"
  "intersects (hitFrame dt e p a) = [\<lparr> uv = Some p \<rparr>]" "isScrolling (hitFrame dt e p a) = False"
  "rand (hitFrame dt e p a) = quietDraws a"
  by (simp_all add: hitFrame_def)

lemma idleFrame_fields [simp]:
  "deltaTime (idleFrame dt e) = dt" "elapsedTime (idleFrame dt e) = e"
  "intersects (idleFrame dt e) = []" "isScrolling (idleFrame dt e) = False"
  "rand (idleFrame dt e) = quietDraws 0"
  by (simp_all add: idleFrame_def)

lemma shouldInsert_hit [simp]:
  "shouldInsert e [\<lparr> uv = Some p \<rparr>] False st = (e - lastTrailTime st > trailInterval)"
  by (simp add: shouldInsert_def)

lemma shouldInsert_idle [simp]: "shouldInsert e [] scr st = False"
  by (simp add: shouldInsert_def)

section \<open>Values of the decay formula at multiples of pi\<close>






section \<open>One call of update, slot by slot\<close>




section \<open>Facts about the example inputs\<close>



lemma runFrames_simps [simp]:
  "runFrames [] st = st"
  "runFrames (f # fs) st = runFrames fs (frameStep st f)"
  by (simp_all add: runFrames_def)

section \<open>Sequences of calls\<close>

lemma runFrames_append: "runFrames (xs @ ys) st = runFrames ys (runFrames xs st)"
  by (simp add: runFrames_def)

lemma runFrames_snoc: "runFrames (xs @ [f]) st = frameStep (runFrames xs st) f"
  by (simp add: runFrames_def)

lemma sized_frameStep: "sized st \<Longrightarrow> sized (frameStep st f)"
  unfolding frameStep_def by (rule sized_update)


lemma count_frameStep:
  "trailCount st \<le> maxTrailPoints \<Longrightarrow> trailCount (frameStep st f) \<le> maxTrailPoints"
  unfolding frameStep_def by (simp add: update_count)

lemma count_run:
  "trailCount st \<le> maxTrailPoints \<Longrightarrow> trailCount (runFrames fs st) \<le> maxTrailPoints"
  by (induction fs arbitrary: st) (simp_all add: count_frameStep)

lemma uTrailCount_frameStep: "uTrailCount (frameStep st f) = trailCount (frameStep st f)"
  unfolding frameStep_def by (rule update_uTrailCount)

lemma uTrailCount_run:
  "uTrailCount st = trailCount st \<Longrightarrow> uTrailCount (runFrames fs st) = trailCount (runFrames fs st)"
  by (induction fs arbitrary: st) (simp_all add: uTrailCount_frameStep)

lemma insertedUvs_append:
  "insertedUvs (xs @ ys) st = insertedUvs xs st @ insertedUvs ys (runFrames xs st)"
  by (induction xs arbitrary: st) simp_all

lemma insertedUvs_snoc_hit:
  "e - lastTrailTime (runFrames xs st) > trailInterval \<Longrightarrow>
   insertedUvs (xs @ [hitFrame dt e p a]) st = insertedUvs xs st @ [p]"
  by (simp add: insertedUvs_append)

lemma wrapFrames_Suc: "wrapFrames (Suc n) = wrapFrames n @ [wrapFrame (Suc n)]"
  by (simp add: wrapFrames_def)

lemma wrap_two:
  "sized (runFrames (wrapFrames 2) IceTrail_new)"
  "trailIndex (runFrames (wrapFrames 2) IceTrail_new) = 2"
  "trailCount (runFrames (wrapFrames 2) IceTrail_new) = 2"
  "lastTrailTime (runFrames (wrapFrames 2) IceTrail_new) = 3"
  "slotAge (runFrames (wrapFrames 2) IceTrail_new) 0 = 2"
  "slotIntensity (runFrames (wrapFrames 2) IceTrail_new) 0 = 0"
  "slotUv (runFrames (wrapFrames 2) IceTrail_new) 0 = (1, 0)"
  "slotAge (runFrames (wrapFrames 2) IceTrail_new) (Suc 0) = 0"
  "slotIntensity (runFrames (wrapFrames 2) IceTrail_new) (Suc 0) = 1"
  "slotMaxAge (runFrames (wrapFrames 2) IceTrail_new) (Suc 0) = 47 / 10"
  "slotUv (runFrames (wrapFrames 2) IceTrail_new) (Suc 0) = (2, 0)"
  "insertedUvs (wrapFrames 2) IceTrail_new = [(1, 0), (2, 0)]"
proof -
  let ?s1 = "IceTrail_update (1 / 60) 1 [\<lparr> uv = Some (1, 0) \<rparr>] False (quietDraws 0) IceTrail_new"
  let ?s2 = "IceTrail_update 2 3 [\<lparr> uv = Some (2, 0) \<rparr>] False (quietDraws (9 / 10)) ?s1"
  have m0: "(0::nat) < maxTrailPoints" and m1: "Suc 0 < maxTrailPoints"
    by (simp_all add: maxTrailPoints_def)
  have r: "runFrames (wrapFrames 2) IceTrail_new = ?s2"
    by (simp add: wrapFrames_def wrapFrame_def frameStep_def upt_rec)
  have sz1: "sized ?s1" by (intro sized_update sized_new)
  have s1: "trailIndex ?s1 = 1" "trailCount ?s1 = 1" "lastTrailTime ?s1 = 1"
    "slotAge ?s1 0 = 0" "slotIntensity ?s1 0 = 1" "slotMaxAge ?s1 0 = 2" "slotUv ?s1 0 = (1, 0)"
    by (simp_all add: update_index update_count update_last update_age[OF sized_new m0]
        update_intensity[OF sized_new m0] update_maxAge[OF sized_new m0] update_uv[OF sized_new m0]
        trailInterval_def maxTrailPoints_def)
  have raw: "max 0 (rawIntensity 2 2) = 0"
    using rawIntensity_nonpos[of 2 2] by simp
  show "sized (runFrames (wrapFrames 2) IceTrail_new)" unfolding r using sz1 by (rule sized_update)
  show "trailIndex (runFrames (wrapFrames 2) IceTrail_new) = 2"
    "trailCount (runFrames (wrapFrames 2) IceTrail_new) = 2"
    "lastTrailTime (runFrames (wrapFrames 2) IceTrail_new) = 3"
    unfolding r by (simp_all add: update_index update_count update_last s1 trailInterval_def maxTrailPoints_def)
  show "slotAge (runFrames (wrapFrames 2) IceTrail_new) 0 = 2"
    "slotIntensity (runFrames (wrapFrames 2) IceTrail_new) 0 = 0"
    "slotUv (runFrames (wrapFrames 2) IceTrail_new) 0 = (1, 0)"
    unfolding r
    by (simp_all add: update_age[OF sz1 m0] update_intensity[OF sz1 m0] update_uv[OF sz1 m0] s1 raw
        trailInterval_def)
  show "slotAge (runFrames (wrapFrames 2) IceTrail_new) (Suc 0) = 0"
    "slotIntensity (runFrames (wrapFrames 2) IceTrail_new) (Suc 0) = 1"
    "slotMaxAge (runFrames (wrapFrames 2) IceTrail_new) (Suc 0) = 47 / 10"
    "slotUv (runFrames (wrapFrames 2) IceTrail_new) (Suc 0) = (2, 0)"
    unfolding r
    by (simp_all add: update_age[OF sz1 m1] update_intensity[OF sz1 m1] update_maxAge[OF sz1 m1]
        update_uv[OF sz1 m1] s1 trailInterval_def)
  show "insertedUvs (wrapFrames 2) IceTrail_new = [(1, 0), (2, 0)]"
    by (simp add: wrapFrames_def wrapFrame_def frameStep_def upt_rec s1 trailInterval_def)
qed


lemma hit_step:
  assumes "sized st" and "e - lastTrailTime st > trailInterval"
  shows "sized (frameStep st (hitFrame dt e p a))"
    and "trailIndex (frameStep st (hitFrame dt e p a)) = (trailIndex st + 1) mod maxTrailPoints"
    and "trailCount (frameStep st (hitFrame dt e p a)) = min (trailCount st + 1) maxTrailPoints"
    and "lastTrailTime (frameStep st (hitFrame dt e p a)) = e"
    and "i < maxTrailPoints \<Longrightarrow> slotUv (frameStep st (hitFrame dt e p a)) i =
           (if i = trailIndex st then p else slotUv st i)"
    and "i < maxTrailPoints \<Longrightarrow> slotAge (frameStep st (hitFrame dt e p a)) i =
           (if i = trailIndex st then 0
            else if slotIntensity st i > 0 then slotAge st i + dt else slotAge st i)"
    and "i < maxTrailPoints \<Longrightarrow> slotIntensity (frameStep st (hitFrame dt e p a)) i =
           (if i = trailIndex st then 1
            else if slotIntensity st i > 0
              then max 0 (rawIntensity (slotAge st i + dt) (slotMaxAge st i))
              else slotIntensity st i)"
    and "i < maxTrailPoints \<Longrightarrow> slotMaxAge (frameStep st (hitFrame dt e p a)) i =
           (if i = trailIndex st then 2 + a * 3 else slotMaxAge st i)"
  using assms
  by (simp_all add: frameStep_def sized_update update_index update_count update_last
      update_uv update_age update_intensity update_maxAge)

lemma wrapFrame_later:
  "3 \<le> k \<Longrightarrow> wrapFrame k = hitFrame (1 / 20) (3 + (real k - 2) / 20) (real k, 0) (9 / 10)"
  by (simp add: wrapFrame_def)

lemma wrap_inv:
  assumes "2 \<le> k" and "k \<le> 64"
  shows "sized (runFrames (wrapFrames k) IceTrail_new) \<and>
         trailIndex (runFrames (wrapFrames k) IceTrail_new) = k mod 64 \<and>
         trailCount (runFrames (wrapFrames k) IceTrail_new) = k \<and>
         lastTrailTime (runFrames (wrapFrames k) IceTrail_new) = 3 + (real k - 2) / 20 \<and>
         slotAge (runFrames (wrapFrames k) IceTrail_new) 0 = 2 \<and>
         slotIntensity (runFrames (wrapFrames k) IceTrail_new) 0 = 0 \<and>
         slotUv (runFrames (wrapFrames k) IceTrail_new) 0 = (1, 0) \<and>
         slotAge (runFrames (wrapFrames k) IceTrail_new) (Suc 0) = (real k - 2) / 20 \<and>
         slotIntensity (runFrames (wrapFrames k) IceTrail_new) (Suc 0) > 0 \<and>
         slotMaxAge (runFrames (wrapFrames k) IceTrail_new) (Suc 0) = 47 / 10 \<and>
         slotUv (runFrames (wrapFrames k) IceTrail_new) (Suc 0) = (2, 0) \<and>
         insertedUvs (wrapFrames k) IceTrail_new = map (\<lambda>j. (real j, 0)) [1..<Suc k]"
  using assms
proof (induction k rule: dec_induct)
  case base
  show ?case using wrap_two by (simp add: upt_rec)
next
  case (step n)
  let ?s = "runFrames (wrapFrames n) IceTrail_new"
  let ?f = "hitFrame (1 / 20) (3 + (real (Suc n) - 2) / 20) (real (Suc n), 0) (9 / 10)"
  have n: "2 \<le> n" "n < 64" using step by simp_all
  have IH: "sized ?s" "trailIndex ?s = n" "trailCount ?s = n"
    "lastTrailTime ?s = 3 + (real n - 2) / 20"
    "slotAge ?s 0 = 2" "slotIntensity ?s 0 = 0" "slotUv ?s 0 = (1, 0)"
    "slotAge ?s (Suc 0) = (real n - 2) / 20" "slotIntensity ?s (Suc 0) > 0"
    "slotMaxAge ?s (Suc 0) = 47 / 10" "slotUv ?s (Suc 0) = (2, 0)"
    "insertedUvs (wrapFrames n) IceTrail_new = map (\<lambda>j. (real j, 0)) [1..<Suc n]"
    using step.IH n by simp_all
  have r: "runFrames (wrapFrames (Suc n)) IceTrail_new = frameStep ?s ?f"
    using n by (simp add: wrapFrames_Suc runFrames_snoc wrapFrame_later)
  have gap: "3 + (real (Suc n) - 2) / 20 - lastTrailTime ?s > trailInterval"
    by (simp add: IH trailInterval_def field_simps)
  have m0: "(0::nat) < maxTrailPoints" and m1: "Suc 0 < maxTrailPoints"
    by (simp_all add: maxTrailPoints_def)
  note h = hit_step[OF IH(1) gap, where dt = "1 / 20" and p = "(real (Suc n), 0)" and a = "9 / 10"]
  have rn: "2 \<le> real n" "real n < 64" using n by simp_all
  have g: "0 \<le> (x - 2) / 20 + 1 / 20 \<and> (x - 2) / 20 + 1 / 20 < 47 / 10"
    if "2 \<le> x" "x < 64" for x :: real
    using that by (simp add: field_simps)
  have live: "0 < rawIntensity ((real n - 2) / 20 + 1 / 20) (47 / 10)"
    using g[OF rn] by (intro rawIntensity_pos) simp_all
  have "trailIndex (frameStep ?s ?f) = Suc n mod 64"
    using h(2) by (simp add: IH maxTrailPoints_def)
  moreover have "trailCount (frameStep ?s ?f) = Suc n"
    using h(3) n by (simp add: IH maxTrailPoints_def)
  moreover have "slotAge (frameStep ?s ?f) 0 = 2" "slotIntensity (frameStep ?s ?f) 0 = 0"
    "slotUv (frameStep ?s ?f) 0 = (1, 0)"
    using h(5)[OF m0] h(6)[OF m0] h(7)[OF m0] n by (simp_all add: IH)
  moreover have "slotAge (frameStep ?s ?f) (Suc 0) = (real (Suc n) - 2) / 20"
  proof -
    have "slotAge (frameStep ?s ?f) (Suc 0) = slotAge ?s (Suc 0) + 1 / 20"
      using h(6)[OF m1] n IH(9) by (simp add: IH(2))
    then show ?thesis by (simp add: IH(8) field_simps)
  qed
  moreover have "slotIntensity (frameStep ?s ?f) (Suc 0) > 0"
    using h(7)[OF m1] n IH(9) live by (simp add: IH(2,8,10))
  moreover have "slotMaxAge (frameStep ?s ?f) (Suc 0) = 47 / 10"
    "slotUv (frameStep ?s ?f) (Suc 0) = (2, 0)"
    using h(5)[OF m1] h(8)[OF m1] n by (simp_all add: IH)
  moreover have "insertedUvs (wrapFrames (Suc n)) IceTrail_new =
      map (\<lambda>j. (real j, 0)) [1..<Suc (Suc n)]"
    using n insertedUvs_snoc_hit[OF gap, of "1 / 20" "(real (Suc n), 0)" "9 / 10"]
    by (simp add: wrapFrames_Suc wrapFrame_later IH(12))
  ultimately show ?case unfolding r using h(1) h(4) by simp
qed


lemma count_reachable: "trailCount (runFrames fs IceTrail_new) \<le> maxTrailPoints"
  by (intro count_run) simp

text \<open>Every live slot of a reachable state has a maximum age of at least 2.\<close>

lemma liveSlotsOk_frameStep:
  assumes "sized st" and "liveSlotsOk st" and "frameOk f"
  shows "liveSlotsOk (frameStep st f)"
  unfolding liveSlotsOk_def
proof (intro allI impI)
  fix i
  assume i: "i < maxTrailPoints" and live: "slotIntensity (frameStep st f) i > 0"
  let ?ins = "shouldInsert (elapsedTime f) (intersects f) (isScrolling f) st \<and> i = trailIndex st"
  have mx: "slotMaxAge (frameStep st f) i =
      (if ?ins then 2 + ageDraw (rand f) * 3 else slotMaxAge st i)"
    unfolding frameStep_def by (rule update_maxAge[OF assms(1) i])
  have ag: "slotAge (frameStep st f) i =
      (if ?ins then 0 else if slotIntensity st i > 0 then slotAge st i + deltaTime f else slotAge st i)"
    unfolding frameStep_def by (rule update_age[OF assms(1) i])
  show "2 \<le> slotMaxAge (frameStep st f) i \<and> 0 \<le> slotAge (frameStep st f) i"
  proof (cases ?ins)
    case True
    then show ?thesis
      unfolding mx ag using assms(3) by (simp add: frameOk_def)
  next
    case False
    have old: "slotIntensity st i > 0"
    proof (rule ccontr)
      assume "\<not> slotIntensity st i > 0"
      then show False
        using live False by (simp add: frameStep_def update_intensity[OF assms(1) i])
    qed
    then have "2 \<le> slotMaxAge st i" "0 \<le> slotAge st i"
      using assms(2) i by (simp_all add: liveSlotsOk_def)
    then show ?thesis
      unfolding mx ag using False old assms(3) by (simp add: frameOk_def)
  qed
qed

lemma liveSlotsOk_run:
  "sized st \<Longrightarrow> liveSlotsOk st \<Longrightarrow> list_all frameOk fs \<Longrightarrow> liveSlotsOk (runFrames fs st)"
  by (induction fs arbitrary: st) (simp_all add: liveSlotsOk_frameStep sized_frameStep)

lemma liveSlotsOk_reachable:
  "list_all frameOk fs \<Longrightarrow> liveSlotsOk (runFrames fs IceTrail_new)"
  by (rule liveSlotsOk_run) (simp_all add: sized_new liveSlotsOk_def new_slots)

section \<open>The shader loop and the order of the slots\<close>

lemma texture2D_trail_center:
  assumes "i < MAX_TRAIL_POINTS"
  shows "texture2D_trail d ((real i + 0.5) / real MAX_TRAIL_POINTS) = texel d i"
proof -
  have "(real i + 0.5) / real MAX_TRAIL_POINTS * 64 = real i + 1 / 2"
    by (simp add: MAX_TRAIL_POINTS_def)
  moreover have "\<lfloor>real i + 1 / 2\<rfloor> = int i" by linarith
  ultimately have "\<lfloor>(real i + 0.5) / real MAX_TRAIL_POINTS * 64\<rfloor> = int i" by simp
  then show ?thesis
    using assms unfolding texture2D_trail_def by (simp add: MAX_TRAIL_POINTS_def)
qed

lemma trailLoop_eq:
  "i \<le> MAX_TRAIL_POINTS \<Longrightarrow>
   trailLoop d count i = map (texel d) [i..<min count MAX_TRAIL_POINTS]"
proof (induction d count i rule: trailLoop.induct)
  case (1 d count i)
  show ?case
  proof (cases "i < MAX_TRAIL_POINTS \<and> i < count")
    case True
    then have IH: "trailLoop d count (i + 1) = map (texel d) [i + 1..<min count MAX_TRAIL_POINTS]"
      using "1.IH" by simp
    have "[i..<min count MAX_TRAIL_POINTS] = i # [i + 1..<min count MAX_TRAIL_POINTS]"
      using True by (simp add: upt_rec)
    then show ?thesis
      using True IH texture2D_trail_center[of i d]
      by (subst trailLoop.simps) (simp add: Let_def)
  next
    case False
    then show ?thesis using "1.prems" by (subst trailLoop.simps) auto
  qed
qed

lemma shaderVisits_eq:
  "shaderVisits st = map (texel (trailData st)) [0..<min (uTrailCount st) MAX_TRAIL_POINTS]"
  unfolding shaderVisits_def by (rule trailLoop_eq) simp

lemma vec4Uv_texel: "vec4Uv (texel (trailData st) i) = slotUv st i"
  by (simp add: vec4Uv_def texel_def slotUv_def)

lemma shaderVisits_uv:
  "map vec4Uv (shaderVisits st) = map (slotUv st) [0..<min (uTrailCount st) MAX_TRAIL_POINTS]"
  by (simp add: shaderVisits_eq vec4Uv_texel)

lemma count_frameStep_eq:
  "trailCount (frameStep st f) =
     (if shouldInsert (elapsedTime f) (intersects f) (isScrolling f) st
      then min (trailCount st + 1) maxTrailPoints else trailCount st)"
  by (simp add: frameStep_def update_count)

lemma count_run_eq:
  "trailCount st \<le> maxTrailPoints \<Longrightarrow>
   trailCount (runFrames fs st) = min (trailCount st + length (insertedUvs fs st)) maxTrailPoints"
proof (induction fs arbitrary: st)
  case Nil
  then show ?case by simp
next
  case (Cons f fs)
  have "trailCount (frameStep st f) \<le> maxTrailPoints" using Cons.prems by (rule count_frameStep)
  then show ?case using Cons.IH[of "frameStep st f"] Cons.prems
    by (auto simp add: count_frameStep_eq)
qed

text \<open>The slots hold the inserted points in insertion order while the buffer has not wrapped.\<close>

lemma order_frameStep:
  assumes "sized st" and "trailCount st = length us" and "trailIndex st = length us mod maxTrailPoints"
    and "\<forall>i<length us. slotUv st i = us ! i"
    and "length (us @ insertedUvs [f] st) \<le> maxTrailPoints"
  shows "trailCount (frameStep st f) = length (us @ insertedUvs [f] st) \<and>
         trailIndex (frameStep st f) = length (us @ insertedUvs [f] st) mod maxTrailPoints \<and>
         (\<forall>i<length (us @ insertedUvs [f] st). slotUv (frameStep st f) i = (us @ insertedUvs [f] st) ! i)"
proof (cases "shouldInsert (elapsedTime f) (intersects f) (isScrolling f) st")
  case True
  then have l: "length us < maxTrailPoints" using assms(5) by simp
  then have idx: "trailIndex st = length us" using assms(3) by simp
  have "slotUv (frameStep st f) i = (us @ [the (uv (hd (intersects f)))]) ! i"
    if "i < Suc (length us)" for i
  proof -
    have "i < maxTrailPoints" using that l by simp
    then show ?thesis
      using that True assms(4) idx
      by (auto simp add: frameStep_def update_uv[OF assms(1)] nth_append less_Suc_eq)
  qed
  then show ?thesis
    using True l assms(2) idx by (simp add: frameStep_def update_count update_index)
next
  case False
  have "slotUv (frameStep st f) i = us ! i" if "i < length us" for i
  proof -
    have "i < maxTrailPoints" using that assms(5) by simp
    then show ?thesis
      using that False assms(4) by (simp add: frameStep_def update_uv[OF assms(1)])
  qed
  then show ?thesis
    using False assms(2,3) by (simp add: frameStep_def update_count update_index)
qed

lemma order_run:
  assumes "sized st" and "trailCount st = length us" and "trailIndex st = length us mod maxTrailPoints"
    and "\<forall>i<length us. slotUv st i = us ! i"
    and "length (us @ insertedUvs fs st) \<le> maxTrailPoints"
  shows "\<forall>i<length (us @ insertedUvs fs st). slotUv (runFrames fs st) i = (us @ insertedUvs fs st) ! i"
  using assms
proof (induction fs arbitrary: st us)
  case Nil
  then show ?case by simp
next
  case (Cons f fs)
  let ?ins = "insertedUvs [f] st"
  have eq: "insertedUvs (f # fs) st = ?ins @ insertedUvs fs (frameStep st f)" by simp
  have len: "length (us @ ?ins) \<le> maxTrailPoints" using Cons.prems(5) by (simp split: if_splits)
  note st = order_frameStep[OF Cons.prems(1,2,3,4) len]
  have "\<forall>i<length ((us @ ?ins) @ insertedUvs fs (frameStep st f)).
          slotUv (runFrames fs (frameStep st f)) i = ((us @ ?ins) @ insertedUvs fs (frameStep st f)) ! i"
  proof (rule Cons.IH)
    show "sized (frameStep st f)" using Cons.prems(1) by (rule sized_frameStep)
    show "trailCount (frameStep st f) = length (us @ ?ins)" using st by blast
    show "trailIndex (frameStep st f) = length (us @ ?ins) mod maxTrailPoints" using st by blast
    show "\<forall>i<length (us @ ?ins). slotUv (frameStep st f) i = (us @ ?ins) ! i" using st by blast
    show "length ((us @ ?ins) @ insertedUvs fs (frameStep st f)) \<le> maxTrailPoints"
      using Cons.prems(5) by (simp split: if_splits)
  qed
  then show ?case by (simp only: eq append_assoc runFrames_simps)
qed

lemma uTrailCount_reachable:
  "uTrailCount (runFrames fs IceTrail_new) = trailCount (runFrames fs IceTrail_new)"
  by (intro uTrailCount_run) (simp add: IceTrail_new_def)

lemma max_points_eq: "MAX_TRAIL_POINTS = maxTrailPoints"
  by (simp add: MAX_TRAIL_POINTS_def maxTrailPoints_def)

lemma vec4Uv_texel_comp: "vec4Uv \<circ> texel (trailData st) = slotUv st"
  by (rule ext) (simp add: vec4Uv_texel)

lemma wrap_65:
  "uTrailCount (runFrames (wrapFrames 65) IceTrail_new) = 64"
  "slotUv (runFrames (wrapFrames 65) IceTrail_new) 0 = (65, 0)"
  "insertedUvs (wrapFrames 65) IceTrail_new = map (\<lambda>j. (real j, 0)) [1..<65] @ [(65, 0)]"
proof -
  let ?s = "runFrames (wrapFrames 64) IceTrail_new"
  let ?f = "hitFrame (1 / 20) (3 + (real (65::nat) - 2) / 20) (real (65::nat), 0) (9 / 10)"
  have w: "sized ?s" "trailIndex ?s = 0" "trailCount ?s = 64" "lastTrailTime ?s = 61 / 10"
    "insertedUvs (wrapFrames 64) IceTrail_new = map (\<lambda>j. (real j, 0)) [1..<65]"
    using wrap_inv[of 64] by simp_all
  have s65: "wrapFrames 65 = wrapFrames 64 @ [?f]"
    using wrapFrames_Suc[of 64] wrapFrame_later[of 65] by simp
  have r: "runFrames (wrapFrames 65) IceTrail_new = frameStep ?s ?f"
    unfolding s65 by (rule runFrames_snoc)
  have gap: "3 + (real (65::nat) - 2) / 20 - lastTrailTime ?s > trailInterval"
    by (simp add: w trailInterval_def)
  note h = hit_step[OF w(1) gap, where dt = "1 / 20" and p = "(real (65::nat), 0)" and a = "9 / 10"]
  have m0: "(0::nat) < maxTrailPoints" by (simp add: maxTrailPoints_def)
  show "uTrailCount (runFrames (wrapFrames 65) IceTrail_new) = 64"
    unfolding r uTrailCount_frameStep using h(3) by (simp add: w maxTrailPoints_def)
  show "slotUv (runFrames (wrapFrames 65) IceTrail_new) 0 = (65, 0)"
    unfolding r using h(5)[OF m0] by (simp add: w)
  show "insertedUvs (wrapFrames 65) IceTrail_new = map (\<lambda>j. (real j, 0)) [1..<65] @ [(65, 0)]"
    unfolding s65 using insertedUvs_snoc_hit[OF gap, of "1 / 20" "(real (65::nat), 0)" "9 / 10"]
    by (simp add: w)
qed

section \<open>Calls of loadSharedIceTextures\<close>

lemma pushCallback_fields [simp]:
  "sharedIceTextures (pushCallback c st) = sharedIceTextures st"
  "sharedIceTexturesLoading (pushCallback c st) = sharedIceTexturesLoading st"
  "invoked (pushCallback c st) = invoked st"
  "loaderCalls (pushCallback c st) = loaderCalls st"
  "nextObject (pushCallback c st) = nextObject st"
  "iceTexturesCallbacks (pushCallback c st) = iceTexturesCallbacks st @ (case c of None \<Rightarrow> [] | Some cb \<Rightarrow> [cb])"
  by (simp_all add: pushCallback_def split: option.splits)

text \<open>The first call, made before any bundle exists and while no load is in flight.\<close>

lemma first_call:
  assumes "sharedIceTextures st = None" and "\<not> sharedIceTexturesLoading st"
  shows "\<exists>b. fst (loadSharedIceTextures c st) = Some b \<and>
             sharedIceTextures (snd (loadSharedIceTextures c st)) = Some b \<and>
             sharedIceTexturesLoading (snd (loadSharedIceTextures c st)) \<and>
             iceTexturesCallbacks (snd (loadSharedIceTextures c st)) = [] \<and>
             invoked (snd (loadSharedIceTextures c st)) =
               invoked st @ map (\<lambda>cb. (cb, b))
                 (iceTexturesCallbacks st @ (case c of None \<Rightarrow> [] | Some cb \<Rightarrow> [cb])) \<and>
             loaderCalls (snd (loadSharedIceTextures c st)) =
               loaderCalls st @ map ((@) iceTexturePath)
                 [''ice-diffuse-3.jpg'', ''ice-normal-4.png'', ''ice-density-4.jpg'',
                  ''noise-fbm.png'', ''radial.jpg'']"
  using assms
  by (simp add: loadSharedIceTextures_def loaderLoad_def Let_def)

text \<open>A call made once the bundle exists.\<close>

lemma later_call:
  assumes "sharedIceTextures st = Some b"
  shows "loadSharedIceTextures c st =
           (Some b, st\<lparr> invoked := invoked st @ (case c of None \<Rightarrow> [] | Some cb \<Rightarrow> [(cb, b)]) \<rparr>)"
  using assms by (simp add: loadSharedIceTextures_def split: option.splits)

lemma later_calls:
  assumes "sharedIceTextures st = Some b"
  shows "loadSharedIceTexturesAll cs st =
           (replicate (length cs) (Some b),
            st\<lparr> invoked := invoked st @ map (\<lambda>cb. (cb, b)) (List.map_filter id cs) \<rparr>)"
  using assms
proof (induction cs arbitrary: st)
  case Nil
  then show ?case by simp
next
  case (Cons c cs)
  let ?st1 = "st\<lparr> invoked := invoked st @ (case c of None \<Rightarrow> [] | Some cb \<Rightarrow> [(cb, b)]) \<rparr>"
  have 1: "loadSharedIceTextures c st = (Some b, ?st1)" using Cons.prems by (rule later_call)
  have 2: "sharedIceTextures ?st1 = Some b" using Cons.prems by simp
  show ?case
    using Cons.IH[OF 2] 1 by (cases c) (simp_all add: List.map_filter_simps)
qed


lemma map_filter_Some [simp]: "List.map_filter id (map Some cbs) = cbs"
  by (induction cbs) (simp_all add: List.map_filter_simps)

lemma init_fields [simp]:
  "sharedIceTextures TextureLoaders_init = None"
  "\<not> sharedIceTexturesLoading TextureLoaders_init"
  "iceTexturesCallbacks TextureLoaders_init = []"
  "invoked TextureLoaders_init = []"
  "loaderCalls TextureLoaders_init = []"
  by (simp_all add: TextureLoaders_init_def)

text \<open>
  No sequence of calls leaves a load in flight without a bundle: the call that starts the
  load also stores the bundle before it returns.
\<close>

lemma loading_has_bundle_step:
  assumes "sharedIceTexturesLoading st \<longrightarrow> sharedIceTextures st \<noteq> None"
  shows "sharedIceTextures (snd (loadSharedIceTextures c st)) \<noteq> None"
proof (cases "sharedIceTextures st")
  case None
  then have "\<not> sharedIceTexturesLoading st" using assms by simp
  then show ?thesis using first_call[OF None, of c] by auto
next
  case (Some b)
  then show ?thesis by (simp add: later_call)
qed

lemma loading_has_bundle:
  assumes "sharedIceTexturesLoading st \<longrightarrow> sharedIceTextures st \<noteq> None"
  shows "sharedIceTexturesLoading (snd (loadSharedIceTexturesAll cs st)) \<longrightarrow>
         sharedIceTextures (snd (loadSharedIceTexturesAll cs st)) \<noteq> None"
  using assms
proof (induction cs arbitrary: st)
  case Nil
  then show ?case by simp
next
  case (Cons c cs)
  have "sharedIceTextures (snd (loadSharedIceTextures c st)) \<noteq> None"
    using Cons.prems by (rule loading_has_bundle_step)
  then show ?case
    using Cons.IH[of "snd (loadSharedIceTextures c st)"]
    by (simp add: case_prod_unfold Let_def)
qed

section \<open>The frame callback of a scene\<close>

lemma animate_paused: "paused sc \<Longrightarrow> animate env sc = sc"
  by (simp add: animate_def paused_def)

lemma frames_paused: "paused sc \<Longrightarrow> sceneRun (map FrameEvent envs) sc = sc"
  by (induction envs) (simp_all add: sceneRun_def animate_paused)

lemma desktop_fields [simp]:
  "contextLost desktopScene = False" "isPageVisible desktopScene = True"
  "renders desktopScene = []" "isMobile desktopScene = False"
  "sceneModel desktopScene = None" "godrayPostProcessing desktopScene \<noteq> None"
  by (simp_all add: desktopScene_def SharedThreeScene_mount_def)

lemma singlePass_mount: "singlePass (SharedThreeScene_mount ty True w h pr)"
  by (simp add: singlePass_def SharedThreeScene_mount_def)

lemma singlePass_animate: "singlePass sc \<Longrightarrow> singlePass (animate env sc)"
  by (auto simp add: singlePass_def animate_def Let_def case_prod_unfold split: option.splits)

lemma singlePass_step:
  assumes "singlePass sc" and "freshMaterials ev"
  shows "singlePass (sceneStep sc ev)"
proof (cases ev)
  case ContextLostEvent
  then show ?thesis using assms by (simp add: singlePass_def onContextLost_def)
next
  case (ContextRestoredEvent env)
  have "singlePass (sc\<lparr> contextLost := False \<rparr>)" using assms(1) by (simp add: singlePass_def)
  then show ?thesis
    using ContextRestoredEvent by (simp add: onContextRestored_def singlePass_animate Let_def)
next
  case HiddenEvent
  then show ?thesis using assms by (simp add: singlePass_def onHidden_def)
next
  case (VisibleEvent env)
  have "singlePass (sc\<lparr> isPageVisible := True \<rparr>)" using assms(1) by (simp add: singlePass_def)
  then show ?thesis
    using VisibleEvent by (simp add: onVisible_def singlePass_animate Let_def)
next
  case (FrameEvent env)
  then show ?thesis using assms by (simp add: singlePass_animate)
next
  case (ModelLoadedEvent mats)
  then show ?thesis
    using assms by (simp add: singlePass_def onModelLoaded_def list_all_iff)
next
  case (ResizeEvent w h pr)
  then show ?thesis using assms by (simp add: singlePass_def onResize_def)
qed

lemma singlePass_run:
  "singlePass sc \<Longrightarrow> list_all freshMaterials evs \<Longrightarrow> singlePass (sceneRun evs sc)"
  unfolding sceneRun_def
  by (induction evs arbitrary: sc) (simp_all add: singlePass_step)

section \<open>The buttons of the micro-effect multiplexer\<close>

lemma clampedDelta_bounds:
  assumes "0 \<le> getDelta env"
  shows "0 < clampedDelta env" and "clampedDelta env \<le> 1 / 10"
  using assms by (auto simp add: clampedDelta_def Let_def min_def)

lemma clampedDelta_le: "clampedDelta env \<le> 1 / 10"
  by (simp add: clampedDelta_def Let_def)

lemma stepProgress_fields [simp]:
  "targetProgress (stepProgress dt v b) = targetProgress b"
  "isActive (stepProgress dt v b) = isActive b"
  "hasContext2d (stepProgress dt v b) = hasContext2d b"
  by (simp_all add: stepProgress_def Let_def)

lemma renderInstance_fields [simp]:
  "targetProgress (renderInstance t b) = targetProgress b"
  "currentProgress (renderInstance t b) = currentProgress b"
  by (simp_all add: renderInstance_def Let_def)

text \<open>The progress after one frame, written out.\<close>

lemma stepProgress_current:
  "currentProgress (stepProgress dt v b) =
     (if \<bar>targetProgress b - currentProgress b\<bar> > 0.001 then
        (if targetProgress b > currentProgress b
         then min 1 (currentProgress b + dt * v)
         else max 0 (currentProgress b - dt * v))
      else currentProgress b)"
  by (simp add: stepProgress_def Let_def min_def max_def)

lemma stepProgress_ok:
  assumes "buttonOk b" and "0 \<le> dt * v"
  shows "buttonOk (stepProgress dt v b)"
  using assms by (auto simp add: buttonOk_def stepProgress_current)

lemma stepProgress_small:
  assumes "buttonOk b" and "0 \<le> dt * v"
  shows "\<bar>currentProgress (stepProgress dt v b) - currentProgress b\<bar> \<le> dt * v"
  using assms by (auto simp add: buttonOk_def stepProgress_current min_def max_def)


lemma list_all_update:
  "P (k, v) \<Longrightarrow> list_all P xs \<Longrightarrow> list_all P (AList.update k v xs)"
  by (induction xs) auto

lemma list_all_delete: "list_all P xs \<Longrightarrow> list_all P (AList.delete k xs)"
  by (simp add: AList.delete_eq list_all_iff)

lemma list_all_lookup:
  "list_all (\<lambda>(k, b). Q b) xs \<Longrightarrow> map_of xs k = Some b \<Longrightarrow> Q b"
  by (auto simp add: list_all_iff dest: map_of_SomeD)

lemma update_not_empty: "AList.update k v xs \<noteq> []"
  by (cases xs) auto

lemma managerOk_new: "managerOk IceButtonManager_new"
  by (simp add: managerOk_def IceButtonManager_new_def)

lemma managerOk_complete:
  "managerOk m \<Longrightarrow> initialized m \<Longrightarrow> managerOk (completeRegistration k ctx m)"
  by (simp add: managerOk_def completeRegistration_def list_all_update buttonOk_def)

lemma initialized_complete [simp]:
  "initialized (completeRegistration k ctx m) = initialized m"
  "textures (completeRegistration k ctx m) = textures m"
  by (simp_all add: completeRegistration_def)

lemma managerOk_foldl_complete:
  "managerOk m \<Longrightarrow> initialized m \<Longrightarrow>
   managerOk (foldl (\<lambda>s (k, ctx). completeRegistration k ctx s) m ps) \<and>
   initialized (foldl (\<lambda>s (k, ctx). completeRegistration k ctx s) m ps)"
  by (induction ps arbitrary: m) (auto simp add: managerOk_complete)

lemma managerOk_pending:
  assumes "managerOk m" and "initialized m"
  shows "managerOk (processPendingRegistrations m) \<and> initialized (processPendingRegistrations m)"
  using assms managerOk_foldl_complete[OF assms, of "pendingRegistrations m"]
  by (simp add: processPendingRegistrations_def managerOk_def)

lemma managerOk_textures:
  "managerOk m \<Longrightarrow> managerOk (m\<lparr> textures := t \<rparr>)"
  "managerOk m \<Longrightarrow> managerOk (m\<lparr> initialized := True \<rparr>)"
  "managerOk m \<Longrightarrow> initialized m \<Longrightarrow> managerOk (m\<lparr> pendingRegistrations := ps \<rparr>)"
  by (simp_all add: managerOk_def)

lemma managerOk_loadTextures:
  assumes "managerOk m" and "initialized m"
  shows "managerOk (fst (loadTextures (m, ld))) \<and> initialized (fst (loadTextures (m, ld)))"
proof -
  have t: "managerOk (processPendingRegistrations (m\<lparr> textures := Some b \<rparr>)) \<and>
           initialized (processPendingRegistrations (m\<lparr> textures := Some b \<rparr>))" for b
    by (rule managerOk_pending) (use assms in \<open>simp_all add: managerOk_textures\<close>)
  show ?thesis
    using t assms
    by (auto simp add: loadTextures_def case_prod_unfold Let_def split: option.splits)
qed

lemma managerOk_initialize:
  assumes "managerOk m"
  shows "managerOk (fst (initialize (m, ld))) \<and> initialized (fst (initialize (m, ld)))"
proof (cases "initialized m")
  case True
  then show ?thesis using assms by (simp add: initialize_def)
next
  case False
  have "managerOk (m\<lparr> initialized := True \<rparr>)" "initialized (m\<lparr> initialized := True \<rparr>)"
    using assms by (simp_all add: managerOk_textures)
  then show ?thesis
    using False managerOk_loadTextures[of "m\<lparr> initialized := True \<rparr>" ld]
    by (simp add: initialize_def)
qed

lemma managerOk_register:
  assumes "managerOk m"
  shows "managerOk (fst (register k ctx (m, ld)))"
  using managerOk_initialize[OF assms, of ld]
  by (auto simp add: register_def case_prod_unfold Let_def managerOk_complete managerOk_textures)

lemma managerOk_animate:
  assumes "managerOk m" and "0 \<le> getDelta env"
  shows "managerOk (IceButtonManager_animate env m)"
proof -
  have d: "0 \<le> clampedDelta env * (12 / 100)" using clampedDelta_bounds(1)[OF assms(2)] by simp
  have "buttonOk (renderInstance t (stepProgress (clampedDelta env) (12 / 100) b))"
    if "buttonOk b" for b t
    using stepProgress_ok[OF that d] by (simp add: buttonOk_def)
  then have "list_all (\<lambda>(k, b). buttonOk b)
      (map (\<lambda>(k, b). (k, renderInstance t (stepProgress (clampedDelta env) (12 / 100) b))) (instances m))"
    for t
    using assms(1) by (auto simp add: managerOk_def list_all_iff)
  then show ?thesis
    using assms(1) by (auto simp add: IceButtonManager_animate_def Let_def managerOk_def)
qed

lemma managerOk_activate:
  assumes "managerOk m" and "0 \<le> getDelta env"
  shows "managerOk (activate k env m)"
proof (cases "map_of (instances m) k")
  case None
  then show ?thesis using assms by (simp add: activate_def)
next
  case (Some b)
  let ?m1 = "m\<lparr> instances := AList.update k (b\<lparr> isActive := True, targetProgress := 1.0 \<rparr>) (instances m) \<rparr>"
  have ne: "instances m \<noteq> []" using Some by auto
  have b: "buttonOk b" using assms(1) Some by (auto simp add: managerOk_def dest: list_all_lookup)
  have ok1: "managerOk ?m1"
    using assms(1) b ne by (simp add: managerOk_def list_all_update buttonOk_def update_not_empty)
  have init: "initialized ?m1" using assms(1) ne by (simp add: managerOk_def)
  have ok2: "managerOk (?m1\<lparr> isAnimating := True \<rparr>)" using ok1 init by (simp add: managerOk_def)
  show ?thesis
    using Some ok1 managerOk_animate[OF ok2 assms(2)] by (simp add: activate_def startAnimation_def)
qed

lemma managerOk_deactivate:
  assumes "managerOk m"
  shows "managerOk (deactivate k m)"
proof (cases "map_of (instances m) k")
  case None
  then show ?thesis using assms by (simp add: deactivate_def)
next
  case (Some b)
  have b: "buttonOk b" using assms Some by (auto simp add: managerOk_def dest: list_all_lookup)
  have ne: "instances m \<noteq> []" using Some by auto
  show ?thesis
    using assms b Some ne
    by (simp add: deactivate_def managerOk_def list_all_update buttonOk_def update_not_empty)
qed

lemma managerOk_unregister:
  assumes "managerOk m"
  shows "managerOk (unregister k m)"
  using assms
  by (auto simp add: unregister_def Let_def stopAnimation_def managerOk_def list_all_delete
      split: option.splits)

lemma managerOk_step:
  assumes "managerOk (fst mt)" and "clockOk ev"
  shows "managerOk (fst (buttonStep mt ev))"
proof (cases mt)
  case (Pair m ld)
  then show ?thesis
    using assms
    by (cases ev)
      (simp_all add: managerOk_register managerOk_unregister managerOk_activate
        managerOk_deactivate managerOk_animate)
qed

lemma managerOk_run:
  "managerOk (fst mt) \<Longrightarrow> list_all clockOk evs \<Longrightarrow> managerOk (fst (buttonRun evs mt))"
  unfolding buttonRun_def
  by (induction evs arbitrary: mt) (simp_all add: managerOk_step)

lemma animate_lookup:
  assumes "isAnimating m" and "initialized m" and "map_of (instances m) k = Some b"
  shows "map_of (instances (IceButtonManager_animate env m)) k =
           Some (renderInstance (getElapsedTime env) (stepProgress (clampedDelta env) (12 / 100) b))"
  using assms by (simp add: IceButtonManager_animate_def Let_def map_of_map)

lemma animate_idle:
  "\<not> isAnimating m \<Longrightarrow> IceButtonManager_animate env m = m"
  by (simp add: IceButtonManager_animate_def)


lemma hoverManager_eval:
  "isAnimating hoverManager" "initialized hoverManager"
  "map_of (instances hoverManager) ''buy'' =
     Some \<lparr> targetProgress = 1, currentProgress = 49 / 12500, isActive = True,
            uProgress = 49 / 12500, uTimeButton = 1 / 60, canvasDrawn = True, hasContext2d = True \<rparr>"
  by (simp_all add: hoverManager_def hoverEvents_def buttonRun_def register_def initialize_def
      loadTextures_def getSharedIceTextures_def loadSharedIceTextures_def loaderLoad_def
      pushCallback_def TextureLoaders_init_def IceButtonManager_new_def
      processPendingRegistrations_def completeRegistration_def activate_def startAnimation_def
      IceButtonManager_animate_def clampedDelta_def stepProgress_def renderInstance_def
      keepsAnimating_def startEnv_def frameEnv_def Let_def)


lemma reachable_managerOk:
  "list_all clockOk evs \<Longrightarrow>
   managerOk (fst (buttonRun evs (IceButtonManager_new, TextureLoaders_init)))"
  by (rule managerOk_run) (simp_all add: managerOk_new)

lemma frame_progress:
  assumes "managerOk m" and "map_of (instances m) k = Some b"
  shows "progressOf (IceButtonManager_animate env m) k =
           Some (if isAnimating m
                 then currentProgress (stepProgress (clampedDelta env) (12 / 100) b)
                 else currentProgress b)"
proof (cases "isAnimating m")
  case True
  then have "initialized m" using assms(1) by (simp add: managerOk_def)
  then show ?thesis using True assms(2) by (simp add: progressOf_def animate_lookup)
next
  case False
  then show ?thesis using assms(2) by (simp add: progressOf_def animate_idle)
qed

lemma activate_progress:
  assumes "managerOk m" and "map_of (instances m) k = Some b"
  shows "progressOf (activate k env m) k =
           Some (if isAnimating m then currentProgress b
                 else currentProgress (stepProgress (clampedDelta env) (12 / 100)
                        (b\<lparr> isActive := True, targetProgress := 1 \<rparr>)))"
proof -
  let ?b1 = "b\<lparr> isActive := True, targetProgress := 1 \<rparr>"
  let ?m1 = "m\<lparr> instances := AList.update k ?b1 (instances m) \<rparr>"
  have ne: "instances m \<noteq> []" using assms(2) by auto
  then have init: "initialized m" using assms(1) by (simp add: managerOk_def)
  have l: "map_of (instances ?m1) k = Some ?b1" by (simp add: AList.update_conv')
  show ?thesis
  proof (cases "isAnimating m")
    case True
    then show ?thesis using assms(2) l by (simp add: activate_def startAnimation_def progressOf_def)
  next
    case False
    have "map_of (instances (IceButtonManager_animate env (?m1\<lparr> isAnimating := True \<rparr>))) k =
        Some (renderInstance (getElapsedTime env) (stepProgress (clampedDelta env) (12 / 100) ?b1))"
      by (rule animate_lookup) (use init l in simp_all)
    then show ?thesis
      using False assms(2) by (simp add: activate_def startAnimation_def progressOf_def)
  qed
qed

lemma hoverEvents_clock: "list_all clockOk hoverEvents"
  by (simp add: hoverEvents_def startEnv_def frameEnv_def)

section \<open>Cloning and the model cache\<close>

lemma clone_facts:
  "shapeOf (fst (cloneObject n t)) = shapeOf t \<and> oid (fst (cloneObject n t)) = n \<and>
   n < snd (cloneObject n t) \<and> oids (fst (cloneObject n t)) \<subseteq> {n..<snd (cloneObject n t)}"
  "map shapeOf (fst (cloneChildren n ts)) = map shapeOf ts \<and> n \<le> snd (cloneChildren n ts) \<and>
   (\<Union> (oids ` set (fst (cloneChildren n ts)))) \<subseteq> {n..<snd (cloneChildren n ts)}"
proof (induction n t and n ts rule: cloneObject_cloneChildren.induct)
  case (1 n i p r s g m cs)
  then show ?case by (auto simp add: case_prod_unfold Let_def)
next
  case (2 n)
  then show ?case by simp
next
  case (3 n c cs)
  obtain c1 n1 where c1: "cloneObject n c = (c1, n1)" by (cases "cloneObject n c")
  obtain cs1 n2 where cs1: "cloneChildren n1 cs = (cs1, n2)" by (cases "cloneChildren n1 cs")
  have a: "shapeOf c1 = shapeOf c" "n < n1" "oids c1 \<subseteq> {n..<n1}"
    using "3.IH"(1) c1 by simp_all
  have b: "map shapeOf cs1 = map shapeOf cs" "n1 \<le> n2" "(\<Union> (oids ` set cs1)) \<subseteq> {n1..<n2}"
    using "3.IH"(2)[OF c1[symmetric] refl] cs1 by simp_all
  have r: "cloneChildren n (c # cs) = (c1 # cs1, n2)" by (simp add: c1 cs1)
  have "oids c1 \<subseteq> {n..<n2}" using a(3) b(2) by auto
  moreover have "(\<Union> (oids ` set cs1)) \<subseteq> {n..<n2}" using b(3) a(2) by auto
  ultimately show ?case unfolding r using a b by simp
qed

lemma oid_in_oids: "oid t \<in> oids t"
  by (cases t) simp

lemma heapOk_addr: "heapOk st \<Longrightarrow> heap st a = Some t \<Longrightarrow> a < nextOid st"
  using oid_in_oids[of t] by (auto simp add: heapOk_def)

lemma heapOk_oids: "heapOk st \<Longrightarrow> heap st a = Some t \<Longrightarrow> i \<in> oids t \<Longrightarrow> i < nextOid st"
  by (auto simp add: heapOk_def)

lemma allocClone_facts:
  assumes "heapOk st"
  shows "fst (allocClone t st) = nextOid st"
    and "heapOk (snd (allocClone t st))"
    and "modelCache (snd (allocClone t st)) = modelCache st"
    and "nextOid st < nextOid (snd (allocClone t st))"
    and "heap st (nextOid st) = None"
    and "a \<noteq> nextOid st \<Longrightarrow> heap (snd (allocClone t st)) a = heap st a"
    and "\<exists>t'. heap (snd (allocClone t st)) (nextOid st) = Some t' \<and> shapeOf t' = shapeOf t \<and>
              oids t' \<subseteq> {nextOid st..<nextOid (snd (allocClone t st))}"
proof -
  obtain c n where c: "cloneObject (nextOid st) t = (c, n)" by (cases "cloneObject (nextOid st) t")
  have f: "shapeOf c = shapeOf t" "oid c = nextOid st" "nextOid st < n" "oids c \<subseteq> {nextOid st..<n}"
    using clone_facts(1)[of "nextOid st" t] c by simp_all
  have r: "allocClone t st = (nextOid st, st\<lparr> heap := (heap st)(nextOid st \<mapsto> c), nextOid := n \<rparr>)"
    by (simp add: allocClone_def c f(2))
  show "fst (allocClone t st) = nextOid st" by (simp add: r)
  show "modelCache (snd (allocClone t st)) = modelCache st" by (simp add: r)
  show "nextOid st < nextOid (snd (allocClone t st))" using f(3) by (simp add: r)
  show none: "heap st (nextOid st) = None"
  proof (cases "heap st (nextOid st)")
    case (Some u)
    then show ?thesis using heapOk_addr[OF assms Some] by simp
  qed simp
  show "a \<noteq> nextOid st \<Longrightarrow> heap (snd (allocClone t st)) a = heap st a" by (simp add: r)
  show "\<exists>t'. heap (snd (allocClone t st)) (nextOid st) = Some t' \<and> shapeOf t' = shapeOf t \<and>
              oids t' \<subseteq> {nextOid st..<nextOid (snd (allocClone t st))}"
    using f by (simp add: r)
  let ?s = "st\<lparr> heap := (heap st)(nextOid st \<mapsto> c), nextOid := n \<rparr>"
  have "heapOk ?s"
    unfolding heapOk_def
  proof (rule conjI; intro allI impI)
    fix a u
    assume h: "heap ?s a = Some u"
    show "oid u = a \<and> (\<forall>i\<in>oids u. i < nextOid ?s)"
    proof (cases "a = nextOid st")
      case True
      then have "u = c" using h by simp
      then show ?thesis using True f by auto
    next
      case False
      then have old: "heap st a = Some u" using h by simp
      then have "oid u = a" using assms by (auto simp add: heapOk_def)
      moreover have "i < n" if "i \<in> oids u" for i
        using heapOk_oids[OF assms old that] f(3) by simp
      ultimately show ?thesis by simp
    qed
  next
    fix p a
    assume "modelCache ?s p = Some a"
    then have "heap st a \<noteq> None" using assms by (auto simp add: heapOk_def)
    then show "heap ?s a \<noteq> None" by simp
  qed
  then show "heapOk (snd (allocClone t st))" by (simp add: r)
qed

lemma position_withPosition [simp]: "position (withPosition v t) = v"
  by (cases t) simp

lemma movesOnly_stored: "heap st a = Some t \<Longrightarrow> movesOnly st a v"
  by (simp add: movesOnly_def setPosition_def)

lemma heapOk_init: "heapOk ModelLoaders_init"
  by (simp add: heapOk_def ModelLoaders_init_def)

text \<open>A clone of the cached group, followed by a call that hits the cache.\<close>

lemma clone_then_hit:
  assumes "heapOk s" and "modelCache s path = Some c" and "heap s c = Some t"
  shows "\<exists>r2 s2. loadModel path (snd (allocClone t s)) = (Resolved r2, s2) \<and>
           modelCache s2 path = Some c \<and> heap s2 c = Some t \<and>
           independentClones s2 path (fst (allocClone t s)) r2 \<and>
           movesOnly s2 (fst (allocClone t s)) v \<and> movesOnly s2 r2 v"
proof -
  let ?s1 = "snd (allocClone t s)"
  let ?s2 = "snd (allocClone t ?s1)"
  let ?r1 = "nextOid s"
  let ?r2 = "nextOid ?s1"
  note a = allocClone_facts[OF assms(1)]
  have ok1: "heapOk ?s1" by (rule a(2))
  note b = allocClone_facts[OF ok1]
  have c_lt: "c < nextOid s" using assms(1,3) by (rule heapOk_addr)
  have r12: "?r1 < ?r2" by (rule a(4))
  have c1: "heap ?s1 c = Some t" using a(6)[where a = c and t = t] c_lt assms(3) by simp
  have cache1: "modelCache ?s1 path = Some c" using a(3)[where t = t] assms(2) by simp
  have call: "loadModel path ?s1 = (Resolved ?r2, ?s2)"
    using b(1)[where t = t] by (simp add: loadModel_def cache1 c1 case_prod_unfold Let_def)
  obtain t1 where t1: "heap ?s1 ?r1 = Some t1" "shapeOf t1 = shapeOf t" "oids t1 \<subseteq> {?r1..<?r2}"
    using a(7)[where t = t] by blast
  obtain t2 where t2: "heap ?s2 ?r2 = Some t2" "shapeOf t2 = shapeOf t"
    "oids t2 \<subseteq> {?r2..<nextOid ?s2}"
    using b(7)[where t = t] by blast
  have t1': "heap ?s2 ?r1 = Some t1" using b(6)[where a = ?r1 and t = t] r12 t1(1) by simp
  have c2: "heap ?s2 c = Some t" using b(6)[where a = c and t = t] c_lt r12 c1 by simp
  have cache2: "modelCache ?s2 path = Some c" using b(3)[where t = t] cache1 by simp
  have old: "i < ?r1" if "i \<in> oids t" for i using heapOk_oids[OF assms(1,3) that] .
  have d12: "oids t1 \<inter> oids t2 = {}" using t1(3) t2(3) by fastforce
  have d1: "oids t1 \<inter> oids t = {}" using t1(3) old by fastforce
  have d2: "oids t2 \<inter> oids t = {}" using t2(3) old r12 by fastforce
  have ind: "independentClones ?s2 path ?r1 ?r2"
    using r12 c_lt t1(2) t2(2) d12 d1 d2
    by (simp add: independentClones_def cache2 c2 t1' t2(1))
  show ?thesis
    using call cache2 c2 ind movesOnly_stored[OF t1'] movesOnly_stored[OF t2(1)]
    by (simp add: a(1)[where t = t])
qed

lemma oids_withPosition [simp]: "oids (withPosition v t) = oids t" "oid (withPosition v t) = oid t"
  by (cases t; simp)+

lemma heapOk_setPosition: "heapOk st \<Longrightarrow> heapOk (setPosition a v st)"
  by (auto simp add: heapOk_def setPosition_def split: option.splits if_splits)

lemma heapOk_loadModel: "heapOk st \<Longrightarrow> heapOk (snd (loadModel path st))"
  by (auto simp add: loadModel_def case_prod_unfold Let_def allocClone_facts(2) split: option.splits)

text \<open>The load callback: what it caches and what it resolves the promise with.\<close>

lemma onLoad_facts:
  assumes "heapOk st"
  shows "\<exists>c t tr. heapOk (snd (loadModel_onLoad path parsed st)) \<and>
           modelCache (snd (loadModel_onLoad path parsed st)) path = Some c \<and>
           heap (snd (loadModel_onLoad path parsed st)) c = Some t \<and>
           heap (snd (loadModel_onLoad path parsed st)) (fst (loadModel_onLoad path parsed st)) = Some tr \<and>
           shapeOf t = shapeOf parsed \<and> shapeOf tr = shapeOf parsed \<and>
           nextOid st \<le> c \<and> c < fst (loadModel_onLoad path parsed st) \<and>
           oids t \<subseteq> {nextOid st..<fst (loadModel_onLoad path parsed st)} \<and>
           oids tr \<subseteq> {fst (loadModel_onLoad path parsed st)..<nextOid (snd (loadModel_onLoad path parsed st))} \<and>
           (\<forall>a<nextOid st. heap (snd (loadModel_onLoad path parsed st)) a = heap st a)"
proof -
  let ?sa = "snd (allocClone parsed st)"
  let ?m = "nextOid st"
  let ?sb = "?sa\<lparr> modelCache := (modelCache ?sa)(path \<mapsto> ?m) \<rparr>"
  note a = allocClone_facts[OF assms]
  obtain t where t: "heap ?sa ?m = Some t" "shapeOf t = shapeOf parsed"
    "oids t \<subseteq> {?m..<nextOid ?sa}"
    using a(7)[where t = parsed] by blast
  have oka: "heapOk ?sa" by (rule a(2))
  have okb: "heapOk ?sb" using oka t(1) by (auto simp add: heapOk_def)
  have tb: "heap ?sb ?m = Some t" using t(1) by simp
  have onload: "loadModel_onLoad path parsed st = (fst (allocClone t ?sb), snd (allocClone t ?sb))"
    by (simp add: loadModel_onLoad_def case_prod_unfold Let_def a(1)[where t = parsed] t(1))
  note b = allocClone_facts[OF okb]
  have r: "fst (allocClone t ?sb) = nextOid ?sa" using b(1)[where t = t] by simp
  have m_lt: "?m < nextOid ?sa" using a(4)[where t = parsed] by simp
  obtain tr where tr: "heap (snd (allocClone t ?sb)) (nextOid ?sa) = Some tr" "shapeOf tr = shapeOf t"
    "oids tr \<subseteq> {nextOid ?sa..<nextOid (snd (allocClone t ?sb))}"
    using b(7)[where t = t] by auto
  have c1: "modelCache (snd (allocClone t ?sb)) path = Some ?m"
    using b(3)[where t = t] by simp
  have t1: "heap (snd (allocClone t ?sb)) ?m = Some t"
    using b(6)[where a = ?m and t = t] m_lt tb by simp
  have old: "heap (snd (allocClone t ?sb)) x = heap st x" if "x < ?m" for x
    using b(6)[where a = x and t = t] a(6)[where a = x and t = parsed] that m_lt by simp
  have ok: "heapOk (snd (allocClone t ?sb))" by (rule b(2))
  show ?thesis
    unfolding onload
    using ok c1 t1 tr t(2,3) m_lt old
    by (intro exI[of _ ?m] exI[of _ t] exI[of _ tr]) (simp add: r)
qed

lemma heapOk_onLoad: "heapOk st \<Longrightarrow> heapOk (snd (loadModel_onLoad path parsed st))"
  using onLoad_facts[of st path parsed] by blast

text \<open>Two calls that both miss the cache, each completed by its own load of the same file.\<close>

lemma two_loads:
  assumes "heapOk st"
  shows "\<exists>r1 s1 r2 s2.
           loadModel_onLoad path parsed st = (r1, s1) \<and>
           loadModel_onLoad path parsed s1 = (r2, s2) \<and>
           independentClones s2 path r1 r2 \<and> movesOnly s2 r1 v \<and> movesOnly s2 r2 v"
proof -
  let ?l1 = "loadModel_onLoad path parsed st"
  let ?l2 = "loadModel_onLoad path parsed (snd ?l1)"
  obtain c1 t1 tr1 where a: "heapOk (snd ?l1)"
    "heap (snd ?l1) (fst ?l1) = Some tr1" "shapeOf tr1 = shapeOf parsed"
    "oids tr1 \<subseteq> {fst ?l1..<nextOid (snd ?l1)}"
    using onLoad_facts[OF assms, of path parsed] by blast
  obtain c2 t2 tr2 where b: "modelCache (snd ?l2) path = Some c2"
    "heap (snd ?l2) c2 = Some t2" "heap (snd ?l2) (fst ?l2) = Some tr2"
    "shapeOf t2 = shapeOf parsed" "shapeOf tr2 = shapeOf parsed"
    "nextOid (snd ?l1) \<le> c2" "c2 < fst ?l2"
    "oids t2 \<subseteq> {nextOid (snd ?l1)..<fst ?l2}"
    "oids tr2 \<subseteq> {fst ?l2..<nextOid (snd ?l2)}"
    "\<forall>x<nextOid (snd ?l1). heap (snd ?l2) x = heap (snd ?l1) x"
    using onLoad_facts[OF a(1), of path parsed] by blast
  have r1_lt: "fst ?l1 < nextOid (snd ?l1)" using heapOk_addr[OF a(1,2)] .
  have tr1': "heap (snd ?l2) (fst ?l1) = Some tr1" using b(10) r1_lt a(2) by simp
  have d12: "oids tr1 \<inter> oids tr2 = {}" using a(4) b(9) b(6,7) by fastforce
  have d1: "oids tr1 \<inter> oids t2 = {}" using a(4) b(8) by fastforce
  have d2: "oids tr2 \<inter> oids t2 = {}" using b(8,9) by fastforce
  have ind: "independentClones (snd ?l2) path (fst ?l1) (fst ?l2)"
    using r1_lt b(6,7) a(3) b(4,5) d12 d1 d2
    by (simp add: independentClones_def b(1,2,3) tr1')
  show ?thesis
    using ind movesOnly_stored[OF tr1'] movesOnly_stored[OF b(3)]
    by (intro exI[of _ "fst ?l1"] exI[of _ "snd ?l1"] exI[of _ "fst ?l2"] exI[of _ "snd ?l2"]) simp
qed

lemma example_loads:
  "fst firstLoad = 2" "fst secondLoad = Resolved 4"
  by (simp_all add: secondLoad_def firstLoad_def loadModel_onLoad_def loadModel_def allocClone_def
      logoFile_def ModelLoaders_init_def Let_def)

section \<open>The order of the ages in the ring buffer\<close>


















section \<open>Claim C5: the intensity is 0 from the maximum age on\<close>



section \<open>Claim C1: the intensity over consecutive calls\<close>




section \<open>Claim C2: the ring buffer holds at most 64 points\<close>




section \<open>Claim C6: what the shader loop visits\<close>

text \<open>
  C6, as amended. After any sequence of calls of \<open>update\<close> on a new effect, the trail
  loop of the shader, run on the data texture and \<open>uTrailCount\<close> that the calls leave,
  visits exactly \<open>trailCount\<close> points, the slots \<open>0\<close> to \<open>trailCount - 1\<close> in slot
  order, where \<open>trailCount\<close> is the number of insertions capped at 64. As long as at most
  64 points have been inserted (the ring buffer has not wrapped) this is the insertion
  order.
\<close>

theorem shader_visits_slots:
  assumes "st = runFrames fs IceTrail_new"
  shows "length (shaderVisits st) = trailCount st \<and>
         trailCount st = min (length (insertedUvs fs IceTrail_new)) maxTrailPoints \<and>
         shaderVisits st = map (texel (trailData st)) [0..<trailCount st] \<and>
         (length (insertedUvs fs IceTrail_new) \<le> maxTrailPoints \<longrightarrow>
            map vec4Uv (shaderVisits st) = insertedUvs fs IceTrail_new)"
proof -
  let ?ins = "insertedUvs fs IceTrail_new"
  have u: "uTrailCount st = trailCount st" unfolding assms by (rule uTrailCount_reachable)
  have c: "trailCount st \<le> maxTrailPoints" unfolding assms by (rule count_reachable)
  have n: "trailCount st = min (length ?ins) maxTrailPoints"
    unfolding assms using count_run_eq[of IceTrail_new fs] by simp
  have v: "shaderVisits st = map (texel (trailData st)) [0..<trailCount st]"
    using c by (simp add: shaderVisits_eq u max_points_eq min_absorb1)
  have o: "map vec4Uv (shaderVisits st) = ?ins" if le: "length ?ins \<le> maxTrailPoints"
  proof -
    have "\<forall>i<length ([] @ ?ins). slotUv (runFrames fs IceTrail_new) i = ([] @ ?ins) ! i"
      by (rule order_run) (use le in \<open>simp_all add: sized_new\<close>)
    then have s: "\<forall>i<length ?ins. slotUv st i = ?ins ! i" unfolding assms by simp
    have l: "trailCount st = length ?ins" using n le by simp
    have "map (slotUv st) [0..<length ?ins] = ?ins"
      using s by (intro nth_equalityI) simp_all
    then show ?thesis by (simp add: v l vec4Uv_texel_comp)
  qed
  show ?thesis using n v o by simp
qed

theorem shader_visits_slots_witness:
  "runFrames (wrapFrames 2) IceTrail_new = runFrames (wrapFrames 2) IceTrail_new \<and>
   length (insertedUvs (wrapFrames 2) IceTrail_new) \<le> maxTrailPoints \<and>
   length (shaderVisits (runFrames (wrapFrames 2) IceTrail_new)) = 2 \<and>
   map vec4Uv (shaderVisits (runFrames (wrapFrames 2) IceTrail_new)) = [(1, 0), (2, 0)]"
proof -
  have i: "insertedUvs (wrapFrames 2) IceTrail_new = [(1, 0), (2, 0)]" by (rule wrap_two)
  have c: "trailCount (runFrames (wrapFrames 2) IceTrail_new) = 2" by (rule wrap_two)
  have l: "length (insertedUvs (wrapFrames 2) IceTrail_new) \<le> maxTrailPoints"
    by (simp add: i maxTrailPoints_def)
  have t: "length (shaderVisits (runFrames (wrapFrames 2) IceTrail_new))
             = trailCount (runFrames (wrapFrames 2) IceTrail_new)"
    "length (insertedUvs (wrapFrames 2) IceTrail_new) \<le> maxTrailPoints \<longrightarrow>
     map vec4Uv (shaderVisits (runFrames (wrapFrames 2) IceTrail_new))
       = insertedUvs (wrapFrames 2) IceTrail_new"
    using shader_visits_slots[OF refl, of "wrapFrames 2"] by blast+
  from t(2) l have o: "map vec4Uv (shaderVisits (runFrames (wrapFrames 2) IceTrail_new))
      = [(1, 0), (2, 0)]"
    unfolding i by blast
  from t(1) have n: "length (shaderVisits (runFrames (wrapFrames 2) IceTrail_new)) = 2"
    unfolding c .
  show ?thesis using l n o by blast
qed

text \<open>
  The claim as stated fails once the ring buffer has wrapped. After the 65 insertions of
  \<open>wrapFrames 65\<close> the loop visits 64 points, and the first one it visits is the point
  inserted last: the uv coordinates in visiting order are not those of the 64 live points
  (the last 64 inserted) in insertion order.
\<close>

theorem shader_order_after_wrap:
  "length (insertedUvs (wrapFrames 65) IceTrail_new) = 65 \<and>
   length (shaderVisits (runFrames (wrapFrames 65) IceTrail_new)) = 64 \<and>
   hd (map vec4Uv (shaderVisits (runFrames (wrapFrames 65) IceTrail_new)))
     = last (insertedUvs (wrapFrames 65) IceTrail_new) \<and>
   map vec4Uv (shaderVisits (runFrames (wrapFrames 65) IceTrail_new))
     \<noteq> drop 1 (insertedUvs (wrapFrames 65) IceTrail_new)"
proof -
  let ?s = "runFrames (wrapFrames 65) IceTrail_new"
  let ?ins = "insertedUvs (wrapFrames 65) IceTrail_new"
  have up: "[0..<64] = 0 # [1..<64]" by (simp add: upt_rec)
  have v: "map vec4Uv (shaderVisits ?s) = slotUv ?s 0 # map (slotUv ?s) [1..<64]"
    by (simp add: shaderVisits_uv wrap_65(1) MAX_TRAIL_POINTS_def up)
  have h: "hd (map vec4Uv (shaderVisits ?s)) = (65, 0)" by (simp add: v wrap_65(2))
  have l: "length ?ins = 65" by (simp add: wrap_65(3))
  have lv: "length (shaderVisits ?s) = 64"
    by (simp add: shaderVisits_eq wrap_65(1) MAX_TRAIL_POINTS_def)
  have la: "last ?ins = (65, 0)" by (simp add: wrap_65(3))
  have "[1..<65] = 1 # 2 # [3..<65]" by (simp add: upt_rec)
  then have "drop 1 ?ins = (2, 0) # map (\<lambda>j. (real j, 0)) [3..<65] @ [(65, 0)]"
    by (simp add: wrap_65(3))
  then have "hd (drop 1 ?ins) = (2, 0)" by simp
  then have ne: "map vec4Uv (shaderVisits ?s) \<noteq> drop 1 ?ins" using h by auto
  show ?thesis using l lv h la ne by simp
qed

section \<open>Claim C3: the shared ice textures are loaded once\<close>

text \<open>
  C3. When \<open>loadSharedIceTextures\<close> is called N times (N at least 1), each time with a
  callback, starting before the bundle exists, the five textures are loaded exactly once,
  the N callbacks are invoked exactly once each, in the order of the calls, and all of them
  receive the same bundle object, which is also what every call returns and what
  \<open>getSharedIceTextures\<close> gives afterwards; a later call returns that bundle at once and
  loads nothing. (Only the first of the calls finds no bundle: the call that starts the
  load stores the bundle before it returns.)
\<close>

theorem shared_ice_textures_loaded_once:
  assumes "cbs \<noteq> []"
  shows "\<exists>b. fst (loadSharedIceTexturesAll (map Some cbs) TextureLoaders_init)
               = replicate (length cbs) (Some b) \<and>
             getSharedIceTextures (snd (loadSharedIceTexturesAll (map Some cbs) TextureLoaders_init))
               = Some b \<and>
             invoked (snd (loadSharedIceTexturesAll (map Some cbs) TextureLoaders_init))
               = map (\<lambda>cb. (cb, b)) cbs \<and>
             loaderCalls (snd (loadSharedIceTexturesAll (map Some cbs) TextureLoaders_init))
               = map ((@) iceTexturePath)
                   [''ice-diffuse-3.jpg'', ''ice-normal-4.png'', ''ice-density-4.jpg'',
                    ''noise-fbm.png'', ''radial.jpg''] \<and>
             iceTexturesCallbacks (snd (loadSharedIceTexturesAll (map Some cbs) TextureLoaders_init)) = [] \<and>
             fst (loadSharedIceTextures later
                    (snd (loadSharedIceTexturesAll (map Some cbs) TextureLoaders_init))) = Some b \<and>
             loaderCalls (snd (loadSharedIceTextures later
                    (snd (loadSharedIceTexturesAll (map Some cbs) TextureLoaders_init))))
               = loaderCalls (snd (loadSharedIceTexturesAll (map Some cbs) TextureLoaders_init))"
proof -
  obtain c cs where cbs: "cbs = c # cs" using assms by (cases cbs) auto
  let ?r1 = "loadSharedIceTextures (Some c) TextureLoaders_init"
  obtain b where b: "fst ?r1 = Some b" "sharedIceTextures (snd ?r1) = Some b"
    "iceTexturesCallbacks (snd ?r1) = []" "invoked (snd ?r1) = [(c, b)]"
    "loaderCalls (snd ?r1) = map ((@) iceTexturePath)
       [''ice-diffuse-3.jpg'', ''ice-normal-4.png'', ''ice-density-4.jpg'',
        ''noise-fbm.png'', ''radial.jpg'']"
    using first_call[of TextureLoaders_init "Some c"] by auto
  let ?st2 = "(snd ?r1)\<lparr> invoked := invoked (snd ?r1) @ map (\<lambda>cb. (cb, b)) cs \<rparr>"
  have rest: "loadSharedIceTexturesAll (map Some cs) (snd ?r1) = (replicate (length cs) (Some b), ?st2)"
    using later_calls[OF b(2), of "map Some cs"] by simp
  have all: "loadSharedIceTexturesAll (map Some cbs) TextureLoaders_init
        = (Some b # replicate (length cs) (Some b), ?st2)"
    using b(1) rest by (simp add: cbs case_prod_unfold Let_def)
  have sh: "sharedIceTextures ?st2 = Some b" using b(2) by simp
  show ?thesis
    unfolding all
    using b sh later_call[OF sh, of later]
    by (intro exI[of _ b]) (simp add: cbs getSharedIceTextures_def)
qed

theorem shared_ice_textures_loaded_once_witness:
  "[7, 8, 9 :: nat] \<noteq> [] \<and>
   length (loaderCalls (snd (loadSharedIceTexturesAll (map Some [7, 8, 9]) TextureLoaders_init))) = 5 \<and>
   map fst (invoked (snd (loadSharedIceTexturesAll (map Some [7, 8, 9]) TextureLoaders_init))) = [7, 8, 9] \<and>
   map snd (invoked (snd (loadSharedIceTexturesAll (map Some [7, 8, 9]) TextureLoaders_init)))
     = replicate 3 (the (getSharedIceTextures
         (snd (loadSharedIceTexturesAll (map Some [7, 8, 9]) TextureLoaders_init))))"
proof -
  have ne: "[7, 8, 9 :: nat] \<noteq> []" by simp
  obtain b where
    "getSharedIceTextures (snd (loadSharedIceTexturesAll (map Some [7, 8, 9]) TextureLoaders_init)) = Some b"
    "invoked (snd (loadSharedIceTexturesAll (map Some [7, 8, 9]) TextureLoaders_init))
       = map (\<lambda>cb. (cb, b)) [7, 8, 9]"
    "loaderCalls (snd (loadSharedIceTexturesAll (map Some [7, 8, 9]) TextureLoaders_init))
       = map ((@) iceTexturePath)
           [''ice-diffuse-3.jpg'', ''ice-normal-4.png'', ''ice-density-4.jpg'',
            ''noise-fbm.png'', ''radial.jpg'']"
    using shared_ice_textures_loaded_once[OF ne] by blast
  then show ?thesis by (simp add: numeral_3_eq_3)
qed

section \<open>Claim C4: no render while paused\<close>

text \<open>
  C4. While the context is lost or the tab is hidden the frame callback returns at once:
  it changes nothing and renders nothing, for any number of frames. The context-restored
  handler clears the context-lost flag and runs the callback only if the page is visible;
  the tab-shown handler sets the visible flag and runs the callback only if the context
  is not lost. So when both causes hold, clearing one of them renders nothing and leaves
  the scene paused: the frames that follow still render nothing.
\<close>

theorem paused_scene_does_not_render:
  "(paused sc \<longrightarrow>
      animate env sc = sc \<and> renders (sceneRun (map FrameEvent envs) sc) = renders sc) \<and>
   paused (onContextLost sc) \<and> paused (onHidden sc) \<and>
   (\<not> isPageVisible sc \<longrightarrow>
      onContextRestored env sc = sc\<lparr> contextLost := False \<rparr> \<and>
      paused (onContextRestored env sc) \<and>
      renders (sceneRun (map FrameEvent envs) (onContextRestored env sc)) = renders sc) \<and>
   (isPageVisible sc \<longrightarrow> onContextRestored env sc = animate env (sc\<lparr> contextLost := False \<rparr>)) \<and>
   (contextLost sc \<longrightarrow>
      onVisible env sc = sc\<lparr> isPageVisible := True \<rparr> \<and>
      paused (onVisible env sc) \<and>
      renders (sceneRun (map FrameEvent envs) (onVisible env sc)) = renders sc) \<and>
   (\<not> contextLost sc \<longrightarrow> onVisible env sc = animate env (sc\<lparr> isPageVisible := True \<rparr>))"
proof -
  have a: "animate env sc = sc \<and> renders (sceneRun (map FrameEvent envs) sc) = renders sc"
    if "paused sc"
    using that by (simp add: animate_paused frames_paused)
  have l: "paused (onContextLost sc)" "paused (onHidden sc)"
    by (simp_all add: paused_def onContextLost_def onHidden_def)
  have r: "onContextRestored env sc = sc\<lparr> contextLost := False \<rparr> \<and>
      paused (onContextRestored env sc) \<and>
      renders (sceneRun (map FrameEvent envs) (onContextRestored env sc)) = renders sc"
    if h: "\<not> isPageVisible sc"
  proof -
    have e: "onContextRestored env sc = sc\<lparr> contextLost := False \<rparr>"
      using h by (simp add: onContextRestored_def)
    have p: "paused (sc\<lparr> contextLost := False \<rparr>)" using h by (simp add: paused_def)
    show ?thesis unfolding e using p by (simp add: frames_paused)
  qed
  have r': "onContextRestored env sc = animate env (sc\<lparr> contextLost := False \<rparr>)"
    if "isPageVisible sc"
    using that by (simp add: onContextRestored_def)
  have v: "onVisible env sc = sc\<lparr> isPageVisible := True \<rparr> \<and>
      paused (onVisible env sc) \<and>
      renders (sceneRun (map FrameEvent envs) (onVisible env sc)) = renders sc"
    if h: "contextLost sc"
  proof -
    have e: "onVisible env sc = sc\<lparr> isPageVisible := True \<rparr>"
      using h by (simp add: onVisible_def)
    have p: "paused (sc\<lparr> isPageVisible := True \<rparr>)" using h by (simp add: paused_def)
    show ?thesis unfolding e using p by (simp add: frames_paused)
  qed
  have v': "onVisible env sc = animate env (sc\<lparr> isPageVisible := True \<rparr>)"
    if "\<not> contextLost sc"
    using that by (simp add: onVisible_def)
  show ?thesis using a l r r' v v' by blast
qed

theorem paused_scene_does_not_render_witness:
  "paused (onHidden (onContextLost desktopScene)) \<and>
   \<not> isPageVisible (onHidden (onContextLost desktopScene)) \<and>
   contextLost (onHidden (onContextLost desktopScene)) \<and>
   renders (sceneRun (map FrameEvent [quietEnv, quietEnv])
              (onContextRestored quietEnv (onHidden (onContextLost desktopScene)))) = [] \<and>
   renders (sceneRun (map FrameEvent [quietEnv, quietEnv])
              (onVisible quietEnv (onHidden (onContextLost desktopScene)))) = [] \<and>
   isPageVisible (onContextLost desktopScene) \<and>
   renders (onContextRestored quietEnv (onContextLost desktopScene))
     = [GodrayScenePass, GodrayCompositePass]"
proof -
  let ?sc = "onHidden (onContextLost desktopScene)"
  have h: "\<not> isPageVisible ?sc" "contextLost ?sc" "paused ?sc" "renders ?sc = []"
    by (simp_all add: onHidden_def onContextLost_def paused_def)
  have v: "isPageVisible (onContextLost desktopScene)" by (simp add: onContextLost_def)
  have resumed: "renders (animate quietEnv ((onContextLost desktopScene)\<lparr> contextLost := False \<rparr>))
      = [GodrayScenePass, GodrayCompositePass]"
    by (simp add: animate_def onContextLost_def desktopScene_def SharedThreeScene_mount_def
        quietEnv_def AnimationLoop_update_def AnimationLoop_new_def Let_def)
  note both = paused_scene_does_not_render[of ?sc quietEnv "[quietEnv, quietEnv]"]
  note one = paused_scene_does_not_render[of "onContextLost desktopScene" quietEnv "[]"]
  have r1: "renders (sceneRun (map FrameEvent [quietEnv, quietEnv])
              (onContextRestored quietEnv ?sc)) = renders ?sc"
    using both h(1) by blast
  have r2: "renders (sceneRun (map FrameEvent [quietEnv, quietEnv])
              (onVisible quietEnv ?sc)) = renders ?sc"
    using both h(2) by blast
  have r3: "onContextRestored quietEnv (onContextLost desktopScene)
      = animate quietEnv ((onContextLost desktopScene)\<lparr> contextLost := False \<rparr>)"
    using one v by blast
  show ?thesis
    unfolding r1 r2 r3 h(4) resumed using h(1,2,3) v by blast
qed

section \<open>Claim C7: a mobile scene is single-pass\<close>

text \<open>
  C7. A scene constructed for the mobile device class has no ice-trail effect and no
  post-processing pipeline, and none is created by anything that happens to it later
  (context loss and restore, tab hidden and shown, frames, the model load callback,
  resize): both fields stay empty, neither constructor appears among the objects created,
  every render is the single direct pass, and no material of the loaded model has the ice
  shader injected.
\<close>

theorem mobile_scene_is_single_pass:
  assumes "sc = sceneRun evs (SharedThreeScene_mount ty True w h pr)"
    and "list_all freshMaterials evs"
  shows "iceTrailEffect sc = None \<and> godrayPostProcessing sc = None \<and>
         CIceTrailEffect \<notin> set (allocated sc) \<and> CGodrayPostProcessing \<notin> set (allocated sc) \<and>
         set (renders sc) \<subseteq> {DirectRender} \<and>
         (\<forall>ms. sceneModel sc = Some ms \<longrightarrow> list_all (\<lambda>m. \<not> iceShaderInjected m) ms)"
proof -
  have "singlePass sc"
    unfolding assms(1) using singlePass_mount assms(2) by (rule singlePass_run)
  then show ?thesis by (auto simp add: singlePass_def)
qed

theorem mobile_scene_is_single_pass_witness:
  "list_all freshMaterials [ModelLoadedEvent [loadedMaterial], FrameEvent quietEnv, FrameEvent quietEnv] \<and>
   iceTrailEffect (sceneRun [ModelLoadedEvent [loadedMaterial], FrameEvent quietEnv, FrameEvent quietEnv]
                     mobileScene) = None \<and>
   godrayPostProcessing (sceneRun [ModelLoadedEvent [loadedMaterial], FrameEvent quietEnv, FrameEvent quietEnv]
                     mobileScene) = None \<and>
   renders (sceneRun [ModelLoadedEvent [loadedMaterial], FrameEvent quietEnv, FrameEvent quietEnv]
                     mobileScene) = [DirectRender, DirectRender] \<and>
   sceneModel (sceneRun [ModelLoadedEvent [loadedMaterial], FrameEvent quietEnv, FrameEvent quietEnv]
                     mobileScene) = Some [\<lparr> metalMaps = True, iceShaderInjected = False \<rparr>] \<and>
   allocated mobileScene =
     [CTextureCache, CSmokeEffect, CSceneLighting, CModelInteraction, CAnimationLoop]"
proof -
  let ?evs = "[ModelLoadedEvent [loadedMaterial], FrameEvent quietEnv, FrameEvent quietEnv]"
  have f: "list_all freshMaterials ?evs" by (simp add: loadedMaterial_def)
  have m: "sceneRun ?evs mobileScene = sceneRun ?evs (SharedThreeScene_mount Hero True 800 600 1)"
    by (simp add: mobileScene_def)
  note t = mobile_scene_is_single_pass[OF m f]
  have r: "renders (sceneRun ?evs mobileScene) = [DirectRender, DirectRender]"
    by (simp add: sceneRun_def mobileScene_def SharedThreeScene_mount_def onModelLoaded_def
        animate_def quietEnv_def AnimationLoop_update_def AnimationLoop_new_def Let_def)
  have s: "sceneModel (sceneRun ?evs mobileScene) = Some [\<lparr> metalMaps = True, iceShaderInjected = False \<rparr>]"
    by (simp add: sceneRun_def mobileScene_def SharedThreeScene_mount_def onModelLoaded_def
        animate_def quietEnv_def AnimationLoop_update_def AnimationLoop_new_def Let_def
        loadedMaterial_def)
  have a: "allocated mobileScene =
     [CTextureCache, CSmokeEffect, CSceneLighting, CModelInteraction, CAnimationLoop]"
    by (simp add: mobileScene_def SharedThreeScene_mount_def)
  show ?thesis using t f r s a by blast
qed

section \<open>Claim C8: the progress of a button\<close>



section \<open>Claim C10: the change of the progress in one frame\<close>

text \<open>
  C10. The frame loop caps the delta time at 0.1 s before it moves the progress, so for
  every button of a reachable manager one frame changes the progress by at most
  0.1 * 0.12 = 0.012, whatever the clock reports (it may report hours after a hidden
  tab), and so does the frame that a pointer-enter starts.
\<close>

theorem frame_change_is_bounded:
  assumes "m = fst (buttonRun evs (IceButtonManager_new, TextureLoaders_init))"
    and "list_all clockOk evs" and "0 \<le> getDelta env"
    and "map_of (instances m) k = Some b"
  shows "clampedDelta env \<le> 0.1 \<and>
         (\<exists>c. progressOf (IceButtonManager_animate env m) k = Some c \<and>
              \<bar>c - currentProgress b\<bar> \<le> 0.1 * 0.12) \<and>
         (\<exists>c. progressOf (activate k env m) k = Some c \<and>
              \<bar>c - currentProgress b\<bar> \<le> 0.1 * 0.12)"
proof -
  have ok: "managerOk m" unfolding assms(1) using assms(2) by (rule reachable_managerOk)
  have b: "buttonOk b"
    using ok assms(4) by (auto simp add: managerOk_def dest: list_all_lookup)
  have d: "0 \<le> clampedDelta env * (12 / 100)" "clampedDelta env * (12 / 100) \<le> 12 / 1000"
    using clampedDelta_bounds[OF assms(3)] by simp_all
  have s: "\<bar>currentProgress (stepProgress (clampedDelta env) (12 / 100) x) - currentProgress x\<bar>
             \<le> 12 / 1000" if "buttonOk x" for x
    using stepProgress_small[OF that d(1)] d(2) by linarith
  have b1: "buttonOk (b\<lparr> isActive := True, targetProgress := 1 \<rparr>)"
    using b by (simp add: buttonOk_def)
  have f: "\<exists>c. progressOf (IceButtonManager_animate env m) k = Some c \<and>
              \<bar>c - currentProgress b\<bar> \<le> 0.1 * 0.12"
    using s[OF b] by (simp add: frame_progress[OF ok assms(4)])
  have a: "\<exists>c. progressOf (activate k env m) k = Some c \<and>
              \<bar>c - currentProgress b\<bar> \<le> 0.1 * 0.12"
    using s[OF b1] by (simp add: activate_progress[OF ok assms(4)])
  show ?thesis using clampedDelta_le[of env] f a by simp
qed

theorem frame_change_is_bounded_witness:
  "hoverManager = fst (buttonRun hoverEvents (IceButtonManager_new, TextureLoaders_init)) \<and>
   list_all clockOk hoverEvents \<and> 0 \<le> getDelta staleEnv \<and> getDelta staleEnv = 3600 \<and>
   clampedDelta staleEnv = 0.1 \<and>
   progressOf hoverManager ''buy'' = Some (49 / 12500) \<and>
   progressOf (IceButtonManager_animate staleEnv hoverManager) ''buy'' = Some (199 / 12500) \<and>
   \<bar>199 / 12500 - 49 / 12500\<bar> \<le> (0.1 * 0.12 :: real)"
proof -
  have d: "0 \<le> getDelta staleEnv" "getDelta staleEnv = 3600" by (simp_all add: staleEnv_def)
  have c: "clampedDelta staleEnv = 0.1" by (simp add: clampedDelta_def staleEnv_def)
  have p: "progressOf hoverManager ''buy'' = Some (49 / 12500)"
    by (simp add: progressOf_def hoverManager_eval(3))
  have ok: "managerOk hoverManager"
    unfolding hoverManager_def using hoverEvents_clock by (rule reachable_managerOk)
  have f: "progressOf (IceButtonManager_animate staleEnv hoverManager) ''buy'' = Some (199 / 12500)"
    by (simp add: frame_progress[OF ok hoverManager_eval(3)] hoverManager_eval(1) c
        stepProgress_current)
  show ?thesis
    using frame_change_is_bounded[OF hoverManager_def hoverEvents_clock d(1) hoverManager_eval(3)]
      hoverEvents_clock d c p f
    by (simp add: hoverManager_def[symmetric])
qed

section \<open>Claim C9: loadModel hands out independent clones\<close>

text \<open>
  C9. In a well-formed state, two calls of \<open>loadModel\<close> with the same path give two
  different groups, each different from the cached group and with no node in common with
  it or with each other, and each with the cached group's hierarchy, transforms,
  geometries and materials. This holds when both calls hit the cache, when the first
  call starts the load and receives its result from the load callback, and when both
  calls miss the cache and each receives its result from its own load of the file. With
  a single load the cache entry and the cached group are the same before and after.
  Moving either result changes that result only.
\<close>

theorem loadModel_returns_independent_clones:
  assumes "heapOk st"
  shows "(modelCache st path = Some c \<longrightarrow>
            (\<exists>r1 s1 r2 s2.
               loadModel path st = (Resolved r1, s1) \<and> loadModel path s1 = (Resolved r2, s2) \<and>
               modelCache s2 path = Some c \<and> heap s2 c = heap st c \<and>
               independentClones s2 path r1 r2 \<and> movesOnly s2 r1 v \<and> movesOnly s2 r2 v)) \<and>
         (modelCache st path = None \<longrightarrow>
            loadModel path st = (Pending, st) \<and>
            (\<exists>r1 s1 r2 s2 c1 t.
               loadModel_onLoad path parsed st = (r1, s1) \<and>
               modelCache s1 path = Some c1 \<and> heap s1 c1 = Some t \<and> shapeOf t = shapeOf parsed \<and>
               loadModel path s1 = (Resolved r2, s2) \<and>
               modelCache s2 path = Some c1 \<and> heap s2 c1 = Some t \<and>
               independentClones s2 path r1 r2 \<and> movesOnly s2 r1 v \<and> movesOnly s2 r2 v) \<and>
            (\<exists>r1 s1 r2 s2.
               loadModel_onLoad path parsed st = (r1, s1) \<and>
               loadModel_onLoad path parsed s1 = (r2, s2) \<and>
               independentClones s2 path r1 r2 \<and> movesOnly s2 r1 v \<and> movesOnly s2 r2 v))"
proof (intro conjI impI)
  assume hit: "modelCache st path = Some c"
  then have "heap st c \<noteq> None" using assms unfolding heapOk_def by blast
  then obtain t where t: "heap st c = Some t" by blast
  have first: "loadModel path st = (Resolved (fst (allocClone t st)), snd (allocClone t st))"
    by (simp add: loadModel_def hit t case_prod_unfold Let_def)
  show "\<exists>r1 s1 r2 s2.
               loadModel path st = (Resolved r1, s1) \<and> loadModel path s1 = (Resolved r2, s2) \<and>
               modelCache s2 path = Some c \<and> heap s2 c = heap st c \<and>
               independentClones s2 path r1 r2 \<and> movesOnly s2 r1 v \<and> movesOnly s2 r2 v"
  proof -
    obtain r2 s2 where h: "loadModel path (snd (allocClone t st)) = (Resolved r2, s2)"
      "modelCache s2 path = Some c" "heap s2 c = Some t"
      "independentClones s2 path (fst (allocClone t st)) r2"
      "movesOnly s2 (fst (allocClone t st)) v" "movesOnly s2 r2 v"
      using clone_then_hit[OF assms hit t, of v] by blast
    show ?thesis unfolding first t using h by blast
  qed
next
  assume miss: "modelCache st path = None"
  show "loadModel path st = (Pending, st)" by (simp add: loadModel_def miss)
  let ?sa = "snd (allocClone parsed st)"
  let ?m = "nextOid st"
  let ?sb = "?sa\<lparr> modelCache := (modelCache ?sa)(path \<mapsto> ?m) \<rparr>"
  note a = allocClone_facts[OF assms]
  obtain t where t: "heap ?sa ?m = Some t" "shapeOf t = shapeOf parsed"
    using a(7)[where t = parsed] by blast
  have oka: "heapOk ?sa" by (rule a(2))
  have okb: "heapOk ?sb" using oka t(1) by (auto simp add: heapOk_def)
  have cb: "modelCache ?sb path = Some ?m" by simp
  have tb: "heap ?sb ?m = Some t" using t(1) by simp
  have onload: "loadModel_onLoad path parsed st = (fst (allocClone t ?sb), snd (allocClone t ?sb))"
    by (simp add: loadModel_onLoad_def case_prod_unfold Let_def a(1)[where t = parsed] t(1))
  note b = allocClone_facts[OF okb]
  have m_lt: "?m < nextOid ?sb" using a(4)[where t = parsed] by simp
  have c1: "modelCache (snd (allocClone t ?sb)) path = Some ?m"
    using b(3)[where t = t] cb by simp
  have t1: "heap (snd (allocClone t ?sb)) ?m = Some t"
    using b(6)[where a = ?m and t = t] m_lt tb by simp
  show "\<exists>r1 s1 r2 s2 c1 t.
               loadModel_onLoad path parsed st = (r1, s1) \<and>
               modelCache s1 path = Some c1 \<and> heap s1 c1 = Some t \<and> shapeOf t = shapeOf parsed \<and>
               loadModel path s1 = (Resolved r2, s2) \<and>
               modelCache s2 path = Some c1 \<and> heap s2 c1 = Some t \<and>
               independentClones s2 path r1 r2 \<and> movesOnly s2 r1 v \<and> movesOnly s2 r2 v"
  proof -
    obtain r2 s2 where h: "loadModel path (snd (allocClone t ?sb)) = (Resolved r2, s2)"
      "modelCache s2 path = Some ?m" "heap s2 ?m = Some t"
      "independentClones s2 path (fst (allocClone t ?sb)) r2"
      "movesOnly s2 (fst (allocClone t ?sb)) v" "movesOnly s2 r2 v"
      using clone_then_hit[OF okb cb tb, of v] by blast
    show ?thesis unfolding onload using h c1 t1 t(2) by blast
  qed
  show "\<exists>r1 s1 r2 s2.
               loadModel_onLoad path parsed st = (r1, s1) \<and>
               loadModel_onLoad path parsed s1 = (r2, s2) \<and>
               independentClones s2 path r1 r2 \<and> movesOnly s2 r1 v \<and> movesOnly s2 r2 v"
    by (rule two_loads[OF assms])
qed

theorem loadModel_returns_independent_clones_witness:
  "heapOk ModelLoaders_init \<and> modelCache ModelLoaders_init logoPath = None \<and>
   loadModel logoPath ModelLoaders_init = (Pending, ModelLoaders_init) \<and>
   fst firstLoad = 2 \<and> fst secondLoad = Resolved 4 \<and>
   independentClones (snd secondLoad) logoPath 2 4 \<and>
   movesOnly (snd secondLoad) 2 (5, 0, 0) \<and> movesOnly (snd secondLoad) 4 (5, 0, 0)"
proof -
  have miss: "modelCache ModelLoaders_init logoPath = None" by (simp add: ModelLoaders_init_def)
  note inst = loadModel_returns_independent_clones[OF heapOk_init, of logoPath _ "(5, 0, 0)" logoFile]
  have p: "loadModel logoPath ModelLoaders_init = (Pending, ModelLoaders_init)"
    using inst miss by blast
  obtain r1 s1 r2 s2 where h:
    "loadModel_onLoad logoPath logoFile ModelLoaders_init = (r1, s1)"
    "loadModel logoPath s1 = (Resolved r2, s2)"
    "independentClones s2 logoPath r1 r2" "movesOnly s2 r1 (5, 0, 0)" "movesOnly s2 r2 (5, 0, 0)"
    using inst miss by blast
  have f: "firstLoad = (r1, s1)" by (simp add: firstLoad_def h(1))
  have s: "secondLoad = (Resolved r2, s2)" by (simp add: secondLoad_def f h(2))
  have r: "r1 = 2" "r2 = 4" using example_loads by (simp_all add: f s)
  show ?thesis using heapOk_init miss p h(3,4,5) example_loads by (simp add: s r)
qed


end
